theory Spec2Isabelle
  imports Main
begin

section \<open>Text primitives of the Python runtime\<close>

text \<open>
  The development embeds \<^verbatim>\<open>checktools/tools/parseyu.py\<close> with the semantics of
  Python 3. A \<open>str\<close> is a \<open>string\<close>; the embedding covers ASCII text, where
  \<^verbatim>\<open>\s\<close> and \<open>str.strip()\<close> treat the code points 9 to 13, 28 to 31 and 32 as white
  space, \<^verbatim>\<open>\d\<close> is a decimal digit and \<^verbatim>\<open>.\<close> is any character but the line feed.
\<close>

definition is_space :: "char \<Rightarrow> bool" where
  "is_space c = (c \<in> set [CHR 0x09, CHR 0x0A, CHR 0x0B, CHR 0x0C, CHR 0x0D,
                            CHR 0x1C, CHR 0x1D, CHR 0x1E, CHR 0x1F, CHR 0x20])"

definition is_digit :: "char \<Rightarrow> bool" where
  "is_digit c = (c \<in> set ''0123456789'')"

definition is_dot_char :: "char \<Rightarrow> bool" where
  "is_dot_char c = (c \<noteq> CHR 0x0A)"

definition lower_char :: "char \<Rightarrow> char" where
  "lower_char c =
     (case map_of (zip ''ABCDEFGHIJKLMNOPQRSTUVWXYZ'' ''abcdefghijklmnopqrstuvwxyz'') c of
        Some l \<Rightarrow> l
      | None \<Rightarrow> c)"

text \<open>\<open>str.lower()\<close>\<close>

definition lower :: "string \<Rightarrow> string" where
  "lower s = map lower_char s"

text \<open>\<open>str.strip()\<close> without argument: white space goes from both ends.\<close>

definition strip :: "string \<Rightarrow> string" where
  "strip s = rev (dropWhile is_space (rev (dropWhile is_space s)))"

text \<open>
  \<open>s.lstrip(chars)\<close>: the argument is a set of characters; every leading character of
  \<open>s\<close> that occurs in \<open>chars\<close> is removed.
\<close>

definition lstrip :: "string \<Rightarrow> string \<Rightarrow> string" where
  "lstrip chars s = dropWhile (\<lambda>c. c \<in> set chars) s"

text \<open>\<^verbatim>\<open>re.sub('\s+', ' ', name)\<close>: every maximal run of white space becomes one blank.\<close>

function sub_spaces :: "string \<Rightarrow> string" where
  "sub_spaces [] = []"
| "sub_spaces (c # cs) =
     (if is_space c then CHR '' '' # sub_spaces (dropWhile is_space cs)
      else c # sub_spaces cs)"
  by pat_completeness auto
termination
  by (relation "measure length") (auto simp: length_dropWhile_le less_Suc_eq_le)

section \<open>The row pattern\<close>

text \<open>
  \<open>first_some f xs\<close> is the backtracking of the regular-expression engine: the
  alternatives \<open>xs\<close> are tried in order, and the first one on which the rest of the
  pattern (\<open>f\<close>) matches decides.
\<close>

fun first_some :: "('a \<Rightarrow> 'b option) \<Rightarrow> 'a list \<Rightarrow> 'b option" where
  "first_some f [] = None"
| "first_some f (x # xs) = (case f x of Some y \<Rightarrow> Some y | None \<Rightarrow> first_some f xs)"

text \<open>The lengths a greedy quantifier tries: \<open>n, n - 1, \<dots>, 0\<close>; a lazy one: \<open>0, \<dots>, n\<close>.\<close>

definition greedy :: "nat \<Rightarrow> nat list" where
  "greedy n = rev [0..<Suc n]"

definition lazy :: "nat \<Rightarrow> nat list" where
  "lazy n = [0..<Suc n]"

text \<open>
  \<open>get_data_col_regex_str\<close>, repeated \<open>N_data_cols\<close> times:
  \<^verbatim>\<open>(\d+\.\d*)\s*\<close>. The result is the list of the captured groups.
  \<^verbatim>\<open>\d+\<close> must take the whole run of digits, since a dot has to follow; the
  greedy \<^verbatim>\<open>\d*\<close> and \<^verbatim>\<open>\s*\<close> give characters back when the rest fails.
\<close>

primrec match_data_cols :: "nat \<Rightarrow> string \<Rightarrow> string list option" where
  "match_data_cols 0 s = Some []"
| "match_data_cols (Suc n) s =
     (let ds = takeWhile is_digit s; r = dropWhile is_digit s in
      if ds = [] then None
      else case r of
        [] \<Rightarrow> None
      | c # r1 \<Rightarrow>
          if c \<noteq> CHR ''.'' then None
          else first_some (\<lambda>i.
                 let g = ds @ [c] @ take i r1; r2 = drop i r1 in
                 first_some (\<lambda>j.
                   case match_data_cols n (drop j r2) of
                     None \<Rightarrow> None
                   | Some gs \<Rightarrow> Some (g # gs))
                   (greedy (length (takeWhile is_space r2))))
                 (greedy (length (takeWhile is_digit r1))))"

text \<open>
  \<open>self.row_regex.search(line)\<close> for the pattern of \<open>get_row_regex_str\<close>,
  \<^verbatim>\<open>^(\s*.*?)\<close> followed by the data columns. The pattern is anchored, so the
  search only matches at the start of the line. The result is \<open>m.groups()\<close>, split
  into the name capture and the data captures.
\<close>

definition row_regex_search :: "nat \<Rightarrow> string \<Rightarrow> (string \<times> string list) option" where
  "row_regex_search N line =
     first_some (\<lambda>i.
       first_some (\<lambda>j.
         case match_data_cols N (drop (i + j) line) of
           None \<Rightarrow> None
         | Some gs \<Rightarrow> Some (take (i + j) line, gs))
         (lazy (length (takeWhile is_dot_char (drop i line)))))
       (greedy (length (takeWhile is_space line)))"

section \<open>Objects\<close>

text \<open>
  \<open>RowData\<close> objects live in a heap, a list indexed by address, because the code
  compares them by identity and mutates them in place. The \<open>data\<close> dictionary of a
  row is created by the call \<^verbatim>\<open>RowData(name, **data)\<close> and never rebound, so a
  reference to that dictionary is the address of its row (\<open>DataOf\<close>). A \<open>dict\<close> is
  an association list in insertion order with unique keys.

  The interpreter is a parameter: \<open>float\<close> is the conversion of a numeric capture,
  \<open>object_attrs\<close> the attribute names every instance takes from \<open>object\<close> and from
  the class machinery (\<open>__class__\<close>, \<open>__dict__\<close>, \<open>__doc__\<close>, \<dots>).
\<close>

type_synonym addr = nat

record 'f python =
  float :: "string \<Rightarrow> 'f"
  object_attrs :: "string list"

datatype 'f pyval = PyFloat 'f | DataOf addr

type_synonym 'v dict = "(string \<times> 'v) list"

fun dict_set :: "'v dict \<Rightarrow> string \<Rightarrow> 'v \<Rightarrow> 'v dict" where
  "dict_set [] k v = [(k, v)]"
| "dict_set ((k', v') # d) k v =
     (if k' = k then (k, v) # d else (k', v') # dict_set d k v)"

text \<open>\<open>d.update(e)\<close>, and the dictionary built from a sequence of pairs.\<close>

definition dict_update :: "'v dict \<Rightarrow> 'v dict \<Rightarrow> 'v dict" where
  "dict_update d e = foldl (\<lambda>d (k, v). dict_set d k v) d e"

definition dict_of :: "(string \<times> 'v) list \<Rightarrow> 'v dict" where
  "dict_of kvs = dict_update [] kvs"

text \<open>The messages of the exceptions the code raises, with their format arguments.\<close>

datatype message =
    CannotOverwrite string
  | DoNotSetChildren
  | ParentMultipleTimes
  | ParentNotRowData
  | ChildNotRowData
  | Circular
  | LevelSkipped nat int
  | NoElement string

datatype error =
    ValueError message
  | IndexError message
  | AttributeError
  | TypeError
  | KeyError
  | ZeroDivisionError

text \<open>
  \<open>attrs\<close> are the attributes \<open>__init__\<close> creates with \<open>setattr\<close>; \<open>parent\<close> and
  \<open>children\<close> are the attributes \<open>_parent\<close> and \<open>_children\<close>.
\<close>

record 'f RowData =
  name :: string
  data :: "'f pyval dict"
  attrs :: "'f dict"
  parent :: "addr option"
  children :: "addr list"

text \<open>An argument of a method: a \<open>RowData\<close> object or anything else (\<open>None\<close>, a number, \<dots>).\<close>

datatype object = Row addr | Other

definition property_names :: "string list" where
  "property_names = [''children'', ''child_names'', ''child_dict'', ''parent'']"

definition method_names :: "string list" where
  "method_names = [''__init__'', ''__str__'', ''__repr__'', ''set_child_parent_relation'',
     ''has_parent'', ''has_children'', ''get_child_depth'', ''get_parents'', ''add_child'',
     ''as_dict'', ''__getitem__'']"

subsection \<open>Construction\<close>

text \<open>
  \<open>hasattr(self, key)\<close> inside \<open>__init__\<close>, where \<open>fs\<close> are the attributes set so
  far by the loop. \<open>_parent\<close> and \<open>_children\<close> do not exist yet unless a data column
  has that name, so the getters of the properties raise \<open>AttributeError\<close> and
  \<open>hasattr\<close> is false; with a number in \<open>_children\<close>, the comprehension of
  \<open>child_names\<close> and \<open>child_dict\<close> raises \<open>TypeError\<close>.
\<close>

definition init_hasattr :: "'f python \<Rightarrow> 'f dict \<Rightarrow> string \<Rightarrow> error + bool" where
  "init_hasattr py fs key =
     (if key = ''parent'' then Inr (''_parent'' \<in> fst ` set fs)
      else if key = ''children'' then Inr (''_children'' \<in> fst ` set fs)
      else if key = ''child_names'' \<or> key = ''child_dict'' then
        (if ''_children'' \<in> fst ` set fs then Inl TypeError else Inr False)
      else Inr (key \<in> set [''name'', ''data''] \<or> key \<in> fst ` set fs
                \<or> key \<in> set method_names \<or> key \<in> set (object_attrs py)))"

text \<open>
  \<open>setattr(self, key, value)\<close> inside \<open>__init__\<close>: the setters of \<open>children\<close> and
  \<open>parent\<close> read \<open>self._parent\<close>; \<open>child_names\<close> and \<open>child_dict\<close> have no setter.
\<close>

definition init_setattr :: "'f dict \<Rightarrow> string \<Rightarrow> 'f \<Rightarrow> error + 'f dict" where
  "init_setattr fs key v =
     (if key = ''children'' then
        (if ''_parent'' \<in> fst ` set fs then Inl (ValueError DoNotSetChildren)
         else Inl AttributeError)
      else if key = ''parent'' then
        (if ''_parent'' \<in> fst ` set fs then Inl (ValueError ParentMultipleTimes)
         else Inl AttributeError)
      else if key = ''child_names'' \<or> key = ''child_dict'' then Inl AttributeError
      else Inr (fs @ [(key, v)]))"

fun init_loop :: "'f python \<Rightarrow> 'f dict \<Rightarrow> 'f dict \<Rightarrow> error + 'f dict" where
  "init_loop py fs [] = Inr fs"
| "init_loop py fs ((k, v) # kvs) =
     (let key = lower k in
      case init_hasattr py fs key of
        Inl e \<Rightarrow> Inl e
      | Inr True \<Rightarrow> Inl (ValueError (CannotOverwrite key))
      | Inr False \<Rightarrow>
          (case init_setattr fs key v of
             Inl e \<Rightarrow> Inl e
           | Inr fs' \<Rightarrow> init_loop py fs' kvs))"

text \<open>
  The call \<^verbatim>\<open>RowData(name, **data)\<close>. A keyword \<open>name\<close> or \<open>self\<close> collides with a
  parameter of \<open>__init__\<close>: the call raises \<open>TypeError\<close> and the body does not run.
  The last two assignments of the body replace what a data column named \<open>_parent\<close> or
  \<open>_children\<close> has stored.
\<close>

definition RowData_init :: "'f python \<Rightarrow> string \<Rightarrow> 'f dict \<Rightarrow> error + 'f RowData" where
  "RowData_init py nm kw =
     (if ''name'' \<in> fst ` set kw \<or> ''self'' \<in> fst ` set kw then Inl TypeError
      else
        (case init_loop py [] kw of
           Inl e \<Rightarrow> Inl e
         | Inr fs \<Rightarrow>
             Inr \<lparr>name = nm,
                  data = map (\<lambda>(k, v). (k, PyFloat v)) kw,
                  attrs = filter (\<lambda>(k, v). k \<noteq> ''_parent'' \<and> k \<noteq> ''_children'') fs,
                  parent = None,
                  children = []\<rparr>))"

subsection \<open>The relation between parent and child\<close>

text \<open>
  The setter of the property \<open>parent\<close>. \<open>self == parent.parent\<close> compares by
  identity, since \<open>RowData\<close> defines no \<open>__eq__\<close>.
\<close>

definition set_parent :: "'f RowData list \<Rightarrow> addr \<Rightarrow> object \<Rightarrow> error + 'f RowData list" where
  "set_parent h self p =
     (if parent (h ! self) \<noteq> None then Inl (ValueError ParentMultipleTimes)
      else case p of
        Other \<Rightarrow> Inl (ValueError ParentNotRowData)
      | Row q \<Rightarrow>
          if parent (h ! q) = Some self then Inl (ValueError Circular)
          else Inr (h[self := (h ! self)\<lparr>parent := Some q\<rparr>]))"

text \<open>The getter of the property \<open>parent\<close>.\<close>

definition get_parent :: "'f RowData list \<Rightarrow> addr \<Rightarrow> addr option" where
  "get_parent h self = parent (h ! self)"

definition add_child :: "'f RowData list \<Rightarrow> addr \<Rightarrow> object \<Rightarrow> error + 'f RowData list" where
  "add_child h self child =
     (case child of
        Other \<Rightarrow> Inl (ValueError ChildNotRowData)
      | Row c \<Rightarrow>
          if self \<in> set (children (h ! c)) then Inl (ValueError Circular)
          else Inr (h[self := (h ! self)\<lparr>children := children (h ! self) @ [c]\<rparr>]))"

text \<open>
  \<open>set_child_parent_relation(child, parent)\<close>. When \<open>add_child\<close> raises, the parent
  of the child is already set: the error comes with the heap at that moment.
\<close>

definition set_child_parent_relation ::
  "'f RowData list \<Rightarrow> addr \<Rightarrow> addr \<Rightarrow> (error \<times> 'f RowData list) + 'f RowData list" where
  "set_child_parent_relation h child p =
     (case set_parent h child (Row p) of
        Inl e \<Rightarrow> Inl (e, h)
      | Inr h1 \<Rightarrow>
          (case add_child h1 p (Row child) of
             Inl e \<Rightarrow> Inl (e, h1)
           | Inr h2 \<Rightarrow> Inr h2))"

subsection \<open>Reading a row\<close>

text \<open>
  \<open>get_parents(self, parents=[])\<close>. The accumulators are list objects, kept in a
  store of their own; object \<open>0\<close> is the default value of \<open>parents\<close>, created once
  when the \<open>def\<close> is executed and shared by all calls. \<open>[self.parent] + parents\<close>
  allocates a new list. The call on \<open>None\<close> raises the \<open>AttributeError\<close> that the
  handler turns into \<open>return parents\<close>. The first argument bounds the depth of the
  recursion; \<open>None\<close> is the interpreter's \<open>RecursionError\<close>.
\<close>

primrec get_parents ::
  "nat \<Rightarrow> 'f RowData list \<Rightarrow> addr list list \<Rightarrow> addr \<Rightarrow> nat \<Rightarrow> (addr list list \<times> nat) option" where
  "get_parents 0 h ls self parents = None"
| "get_parents (Suc n) h ls self parents =
     (case parent (h ! self) of
        None \<Rightarrow> Some (ls, parents)
      | Some p \<Rightarrow> get_parents n h (ls @ [p # (ls ! parents)]) p (length ls))"

text \<open>
  \<open>as_dict(self)\<close>. \<open>d = self.data\<close> binds the dictionary of the row itself, which
  \<open>d.update\<close> then changes in place; the result is that same dictionary. The
  comprehension calls \<open>as_dict\<close> on every child, in order.
\<close>

fun as_dict_children ::
  "('f RowData list \<Rightarrow> addr \<Rightarrow> ('f RowData list \<times> 'f pyval) option) \<Rightarrow>
   'f RowData list \<Rightarrow> addr list \<Rightarrow> 'f pyval dict \<Rightarrow> ('f RowData list \<times> 'f pyval dict) option" where
  "as_dict_children f h [] e = Some (h, e)"
| "as_dict_children f h (c # cs) e =
     (case f h c of
        None \<Rightarrow> None
      | Some (h', v) \<Rightarrow> as_dict_children f h' cs (dict_set e (name (h ! c)) v))"

primrec as_dict :: "nat \<Rightarrow> 'f RowData list \<Rightarrow> addr \<Rightarrow> ('f RowData list \<times> 'f pyval) option" where
  "as_dict 0 h self = None"
| "as_dict (Suc n) h self =
     (case as_dict_children (as_dict n) h (children (h ! self)) [] of
        None \<Rightarrow> None
      | Some (h', e) \<Rightarrow>
          Some (h'[self := (h' ! self)\<lparr>data := dict_update (data (h' ! self)) e\<rparr>],
                DataOf self))"

definition child_names :: "'f RowData list \<Rightarrow> addr \<Rightarrow> string list" where
  "child_names h self = map (\<lambda>c. name (h ! c)) (children (h ! self))"

definition child_dict :: "'f RowData list \<Rightarrow> addr \<Rightarrow> addr dict" where
  "child_dict h self = dict_of (map (\<lambda>c. (name (h ! c), c)) (children (h ! self)))"

text \<open>What an attribute of a row or an item of a row can be.\<close>

datatype 'f item =
    Value "'f pyval"
  | Name string
  | RowRef "addr option"
  | RowList "addr list"
  | NameList "string list"
  | RowDict "addr dict"
  | Attribute string

text \<open>
  \<open>getattr(self, key)\<close> on a constructed row; \<open>None\<close> is \<open>AttributeError\<close>, that
  is \<open>hasattr(self, key)\<close> is false. Properties come before the attributes of the
  instance, these before the methods and what \<open>object\<close> provides.
\<close>

definition getattr :: "'f python \<Rightarrow> 'f RowData list \<Rightarrow> addr \<Rightarrow> string \<Rightarrow> 'f item option" where
  "getattr py h self key =
     (if key = ''children'' then Some (RowList (children (h ! self)))
      else if key = ''child_names'' then Some (NameList (child_names h self))
      else if key = ''child_dict'' then Some (RowDict (child_dict h self))
      else if key = ''parent'' then Some (RowRef (parent (h ! self)))
      else if key = ''name'' then Some (Name (name (h ! self)))
      else if key = ''data'' then Some (Value (DataOf self))
      else if key = ''_parent'' then Some (RowRef (parent (h ! self)))
      else if key = ''_children'' then Some (RowList (children (h ! self)))
      else case map_of (attrs (h ! self)) key of
        Some v \<Rightarrow> Some (Value (PyFloat v))
      | None \<Rightarrow>
          if key \<in> set method_names \<or> key \<in> set (object_attrs py) then Some (Attribute key)
          else None)"

text \<open>\<open>RowData.__getitem__(self, key)\<close>\<close>

definition getitem :: "'f python \<Rightarrow> 'f RowData list \<Rightarrow> addr \<Rightarrow> string \<Rightarrow> error + 'f item" where
  "getitem py h self key =
     (case getattr py h self key of
        Some v \<Rightarrow> Inr v
      | None \<Rightarrow>
          (case getattr py h self (lower key) of
             Some v \<Rightarrow> Inr v
           | None \<Rightarrow>
               if key \<in> set (child_names h self) then
                 (case map_of (child_dict h self) key of
                    Some c \<Rightarrow> Inr (RowRef (Some c))
                  | None \<Rightarrow> Inl KeyError)
               else Inl (IndexError (NoElement key))))"

section \<open>The parser\<close>

text \<open>\<open>row_regex\<close> is the number of data columns compiled into the pattern.\<close>

record HirarchicalTableParser =
  data_col_names :: "string list"
  col_names :: "string list"
  subcategory_indention :: string
  row_regex :: nat
  rows :: "addr list"

definition HirarchicalTableParser_init :: "string list \<Rightarrow> string \<Rightarrow> HirarchicalTableParser" where
  "HirarchicalTableParser_init cols ind =
     \<lparr>data_col_names = cols,
      col_names = ''name'' # cols,
      subcategory_indention = ind,
      row_regex = length cols,
      rows = []\<rparr>"

definition row_names :: "'f RowData list \<Rightarrow> HirarchicalTableParser \<Rightarrow> string list" where
  "row_names h p = map (\<lambda>r. name (h ! r)) (filter (\<lambda>r. parent (h ! r) = None) (rows p))"

text \<open>
  \<^verbatim>\<open>int((len(name_raw)-len(name_raw.lstrip(ind)))/len(ind))\<close>. The quotient of two
  lengths is not negative, and its truncation is the integer quotient (for lengths
  a double represents exactly). An empty \<open>ind\<close> divides by zero.
\<close>

definition depth_of :: "string \<Rightarrow> string \<Rightarrow> error + nat" where
  "depth_of ind name_raw =
     (if length ind = 0 then Inl ZeroDivisionError
      else Inr ((length name_raw - length (lstrip ind name_raw)) div length ind))"

text \<open>
  The state of the loop of \<open>parse_lines\<close>: the heap, the parser object (whose
  \<open>rows\<close> grow) and the local variable \<open>row_tree\<close>. An exception leaves the loop
  with the state of that moment.
\<close>

record 'f parse_state =
  heap :: "'f RowData list"
  parser :: HirarchicalTableParser
  row_tree :: "addr list option"

text \<open>
  The body of the loop in three parts. First the row is built from the groups of the
  match: the name is stripped and its white space collapsed, the captures are
  converted and zipped with the column names.
\<close>

definition make_row ::
  "'f python \<Rightarrow> HirarchicalTableParser \<Rightarrow> string \<Rightarrow> string list \<Rightarrow> error + 'f RowData" where
  "make_row py p name_raw groups =
     (let nm = sub_spaces (strip name_raw);
          dat = map (\<lambda>v. float py (strip v)) groups
      in RowData_init py nm (dict_of (zip (data_col_names p) dat)))"

text \<open>\<open>self.rows.append(row)\<close>; the new object takes the next free address.\<close>

definition append_row :: "'f parse_state \<Rightarrow> 'f RowData \<Rightarrow> 'f parse_state" where
  "append_row st row =
     st\<lparr>heap := heap st @ [row],
        parser := (parser st)\<lparr>rows := rows (parser st) @ [length (heap st)]\<rparr>\<rparr>"

text \<open>
  The row at address \<open>a\<close> against \<open>row_tree\<close>. \<open>row_tree[-1]\<close> on the empty list
  raises the \<open>IndexError\<close> that the handler swallows; the row is then pushed all the
  same.
\<close>

definition attach ::
  "'f parse_state \<Rightarrow> addr \<Rightarrow> nat \<Rightarrow> (error \<times> 'f parse_state) + 'f parse_state" where
  "attach st a depth =
     (case row_tree st of
        None \<Rightarrow> Inr (st\<lparr>row_tree := Some [a]\<rparr>)
      | Some rt \<Rightarrow>
          (if length rt < depth then
             Inl (ValueError (LevelSkipped depth (int (length rt) - 1)), st)
           else
             (case take depth rt of
                [] \<Rightarrow> Inr (st\<lparr>row_tree := Some [a]\<rparr>)
              | q # qs \<Rightarrow>
                  (case set_child_parent_relation (heap st) a (last (q # qs)) of
                     Inl (e, h) \<Rightarrow> Inl (e, st\<lparr>heap := h, row_tree := Some (q # qs)\<rparr>)
                   | Inr h \<Rightarrow> Inr (st\<lparr>heap := h, row_tree := Some ((q # qs) @ [a])\<rparr>)))))"

definition parse_line ::
  "'f python \<Rightarrow> 'f parse_state \<Rightarrow> string \<Rightarrow> (error \<times> 'f parse_state) + 'f parse_state" where
  "parse_line py st line =
     (if line = [] then Inr st
      else
        (case row_regex_search (row_regex (parser st)) line of
           None \<Rightarrow> Inr st
         | Some (name_raw, groups) \<Rightarrow>
             (case make_row py (parser st) name_raw groups of
                Inl e \<Rightarrow> Inl (e, st)
              | Inr row \<Rightarrow>
                  (case depth_of (subcategory_indention (parser st)) name_raw of
                     Inl e \<Rightarrow> Inl (e, append_row st row)
                   | Inr depth \<Rightarrow> attach (append_row st row) (length (heap st)) depth))))"

fun parse_loop ::
  "'f python \<Rightarrow> 'f parse_state \<Rightarrow> string list \<Rightarrow> (error \<times> 'f parse_state) + 'f parse_state" where
  "parse_loop py st [] = Inr st"
| "parse_loop py st (line # lines) =
     (case parse_line py st line of
        Inl e \<Rightarrow> Inl e
      | Inr st' \<Rightarrow> parse_loop py st' lines)"

text \<open>\<open>parse_lines(self, lines)\<close>: \<open>row_tree = None\<close>, then the loop.\<close>

definition parse_lines ::
  "'f python \<Rightarrow> 'f RowData list \<Rightarrow> HirarchicalTableParser \<Rightarrow> string list \<Rightarrow>
   (error \<times> 'f parse_state) + 'f parse_state" where
  "parse_lines py h p lines = parse_loop py \<lparr>heap = h, parser = p, row_tree = None\<rparr> lines"

section \<open>Vocabulary of the properties\<close>

text \<open>
  The count of the specification: how many times the indentation unit literally
  prefixes the capture, one copy after the other.
\<close>

function prefix_count :: "string \<Rightarrow> string \<Rightarrow> nat" where
  "prefix_count unit s =
     (if unit \<noteq> [] \<and> take (length unit) s = unit
      then Suc (prefix_count unit (drop (length unit) s))
      else 0)"
  by pat_completeness auto
termination
proof (relation "measure (\<lambda>(unit, s). length s)")
  show "wf (measure (\<lambda>(unit, s). length s))" by simp
next
  fix unit s :: string
  assume a: "unit \<noteq> [] \<and> take (length unit) s = unit"
  then have "length (take (length unit) s) = length unit" by simp
  then have "length unit \<le> length s" by simp
  with a show "((unit, drop (length unit) s), (unit, s)) \<in> measure (\<lambda>(unit, s). length s)"
    by (cases unit) auto
qed

declare prefix_count.simps [simp del]

text \<open>
  The ancestors of a row, nearest first: its parent, the parent of that one, up to a
  row without parent.
\<close>

primrec ancestor_chain :: "'f RowData list \<Rightarrow> addr \<Rightarrow> addr list \<Rightarrow> bool" where
  "ancestor_chain h r [] = (parent (h ! r) = None)"
| "ancestor_chain h r (p # ps) = (parent (h ! r) = Some p \<and> ancestor_chain h p ps)"

text \<open>
  Objects for the examples: an interpreter that keeps a number as its text and lists
  a few of the attributes of \<open>object\<close>, and a heap with a parent, its child and a row
  on its own.
\<close>

definition cpython :: "string python" where
  "cpython = \<lparr>float = (\<lambda>s. s),
               object_attrs = [''__class__'', ''__dict__'', ''__doc__'', ''__module__'',
                 ''__eq__'', ''__hash__'', ''__setattr__'', ''__getattribute__'']\<rparr>"

definition family :: "string RowData list" where
  "family =
     [\<lparr>name = ''Mother'', data = [(''max'', PyFloat ''3.0'')], attrs = [(''max'', ''3.0'')],
       parent = None, children = [1]\<rparr>,
      \<lparr>name = ''Kid'', data = [(''max'', PyFloat ''0.3'')], attrs = [(''max'', ''0.3'')],
       parent = Some 0, children = []\<rparr>,
      \<lparr>name = ''Loner'', data = [(''max'', PyFloat ''7.0'')], attrs = [(''max'', ''7.0'')],
       parent = None, children = []\<rparr>]"

text \<open>The store of accumulator lists right after the \<open>def\<close>: the default alone.\<close>

definition lists0 :: "addr list list" where
  "lists0 = [[]]"

text \<open>
  The invariant of the loop of \<open>parse_lines\<close> on the rows from address \<open>n\<close> on: a
  parent is an earlier row, the children are later rows, the parent of \<open>r\<close> is \<open>q\<close>
  exactly when \<open>r\<close> is among the children of \<open>q\<close>, and no child is listed twice.
\<close>

definition linked :: "nat \<Rightarrow> 'f RowData list \<Rightarrow> bool" where
  "linked n h \<longleftrightarrow>
     (\<forall>r q. n \<le> r \<and> r < length h \<and> parent (h ! r) = Some q \<longrightarrow> n \<le> q \<and> q < r) \<and>
     (\<forall>q c. n \<le> q \<and> q < length h \<and> c \<in> set (children (h ! q)) \<longrightarrow> q < c \<and> c < length h) \<and>
     (\<forall>r q. n \<le> r \<and> r < length h \<and> n \<le> q \<and> q < length h \<longrightarrow>
        (parent (h ! r) = Some q \<longleftrightarrow> r \<in> set (children (h ! q)))) \<and>
     (\<forall>q. n \<le> q \<and> q < length h \<longrightarrow> distinct (children (h ! q)))"

definition parse_inv :: "nat \<Rightarrow> 'f parse_state \<Rightarrow> bool" where
  "parse_inv n st \<longleftrightarrow>
     linked n (heap st) \<and> n \<le> length (heap st) \<and>
     (\<forall>rt x. row_tree st = Some rt \<and> x \<in> set rt \<longrightarrow> n \<le> x \<and> x < length (heap st))"

text \<open>
  The parser of \<open>get_yutiming_body_data\<close>, the two lines of the round trip, and the
  state they are parsed to under \<open>cpython\<close>.
\<close>

definition yutiming :: HirarchicalTableParser where
  "yutiming = HirarchicalTableParser_init [''min'', ''avg'', ''max'', ''total''] ''  ''"

definition two_lines :: "string list" where
  "two_lines = [''Root 1.0 2.0 3.0 4.0'', ''  Child 0.1 0.2 0.3 0.4'']"

definition two_rows :: "string parse_state" where
  "two_rows =
     \<lparr>heap =
        [\<lparr>name = ''Root'',
          data = [(''min'', PyFloat ''1.0''), (''avg'', PyFloat ''2.0''),
                  (''max'', PyFloat ''3.0''), (''total'', PyFloat ''4.0'')],
          attrs = [(''min'', ''1.0''), (''avg'', ''2.0''), (''max'', ''3.0''),
                   (''total'', ''4.0'')],
          parent = None, children = [1]\<rparr>,
         \<lparr>name = ''Child'',
          data = [(''min'', PyFloat ''0.1''), (''avg'', PyFloat ''0.2''),
                  (''max'', PyFloat ''0.3''), (''total'', PyFloat ''0.4'')],
          attrs = [(''min'', ''0.1''), (''avg'', ''0.2''), (''max'', ''0.3''),
                   (''total'', ''0.4'')],
          parent = Some 0, children = []\<rparr>],
      parser = yutiming\<lparr>rows := [0, 1]\<rparr>,
      row_tree = Some [0, 1]\<rparr>"

text \<open>
  A parser with one data column and the indentation unit of two blanks; lines that
  skip a level, and lines whose first row is indented by three units.
\<close>

definition skip_parser :: HirarchicalTableParser where
  "skip_parser = HirarchicalTableParser_init [''time''] ''  ''"

definition skip_lines :: "string list" where
  "skip_lines = [''A 1.0'', ''    B 2.0'']"

definition deep_lines :: "string list" where
  "deep_lines = ['''', ''no number here'', ''      Deep 1.0'']"

definition row_A :: "string RowData" where
  "row_A = \<lparr>name = ''A'', data = [(''time'', PyFloat ''1.0'')], attrs = [(''time'', ''1.0'')],
            parent = None, children = []\<rparr>"

definition row_B :: "string RowData" where
  "row_B = \<lparr>name = ''B'', data = [(''time'', PyFloat ''2.0'')], attrs = [(''time'', ''2.0'')],
            parent = None, children = []\<rparr>"

definition row_Deep :: "string RowData" where
  "row_Deep = \<lparr>name = ''Deep'', data = [(''time'', PyFloat ''1.0'')],
               attrs = [(''time'', ''1.0'')], parent = None, children = []\<rparr>"

definition after_A :: "string parse_state" where
  "after_A = \<lparr>heap = [row_A], parser = skip_parser\<lparr>rows := [0]\<rparr>, row_tree = Some [0]\<rparr>"

section \<open>Properties of rows\<close>

subsection \<open>Setting the parent\<close>

text \<open>
  C6. A row whose parent is set refuses every further assignment. On a row without
  parent, assigning a row \<open>p\<close> whose own parent is not this row succeeds, and the
  getter then returns \<open>p\<close>. Assigning something that is no \<open>RowData\<close> fails, and
  so does assigning a row whose parent is this row.
\<close>

theorem set_parent_once:
  fixes h :: "'f RowData list"
  assumes "self < length h"
  shows "(parent (h ! self) \<noteq> None \<longrightarrow>
            set_parent h self x = Inl (ValueError ParentMultipleTimes))
       \<and> (parent (h ! self) = None \<and> parent (h ! p) \<noteq> Some self \<longrightarrow>
            (\<exists>h'. set_parent h self (Row p) = Inr h' \<and> get_parent h' self = Some p))
       \<and> (\<exists>m. set_parent h self Other = Inl (ValueError m))
       \<and> (parent (h ! p) = Some self \<longrightarrow>
            (\<exists>m. set_parent h self (Row p) = Inl (ValueError m)))"
  using assms by (auto simp: set_parent_def get_parent_def)

theorem set_parent_once_witness:
  "1 < length family \<and> parent (family ! 1) \<noteq> None
   \<and> set_parent family 1 (Row 2) = Inl (ValueError ParentMultipleTimes)
   \<and> 2 < length family \<and> parent (family ! 2) = None \<and> parent (family ! 0) \<noteq> Some 2
   \<and> (\<exists>h'. set_parent family 2 (Row 0) = Inr h' \<and> get_parent h' 2 = Some 0)
   \<and> parent (family ! 1) = Some 0
   \<and> (\<exists>m. set_parent family 0 (Row 1) = Inl (ValueError m))"
proof -
  have a: "1 < length family" "2 < length family" "0 < length family"
    by (simp_all add: family_def)
  have b: "parent (family ! 1) \<noteq> None" "parent (family ! 1) = Some 0"
    "parent (family ! 2) = None" "parent (family ! 0) \<noteq> Some 2"
    by (simp_all add: family_def)
  from set_parent_once [OF a(1), of "Row 2"] b(1)
  have c: "set_parent family 1 (Row 2) = Inl (ValueError ParentMultipleTimes)" by blast
  from set_parent_once [OF a(2), of _ 0] b(3,4)
  have d: "\<exists>h'. set_parent family 2 (Row 0) = Inr h' \<and> get_parent h' 2 = Some 0" by blast
  from set_parent_once [OF a(3), of _ 1] b(2)
  have e: "\<exists>m. set_parent family 0 (Row 1) = Inl (ValueError m)" by blast
  from a b c d e show ?thesis by blast
qed

subsection \<open>Adding a child\<close>

text \<open>
  C5, as the code has it. \<open>add_child\<close> fails when the argument is no \<open>RowData\<close>,
  and when the row itself is among the children of the argument (the message is
  "Circular relationship."). In every other case the argument is appended to the
  children.
\<close>

theorem add_child_guard:
  fixes h :: "'f RowData list"
  assumes "self < length h"
  shows "add_child h self Other = Inl (ValueError ChildNotRowData)
       \<and> (self \<in> set (children (h ! c)) \<longrightarrow>
            add_child h self (Row c) = Inl (ValueError Circular))
       \<and> (self \<notin> set (children (h ! c)) \<longrightarrow>
            (\<exists>h'. add_child h self (Row c) = Inr h'
                 \<and> children (h' ! self) = children (h ! self) @ [c]))"
  using assms by (auto simp: add_child_def)

theorem add_child_guard_witness:
  "1 < length family \<and> 1 \<in> set (children (family ! 0))
   \<and> add_child family 1 (Row 0) = Inl (ValueError Circular)
   \<and> 2 < length family \<and> 2 \<notin> set (children (family ! 0))
   \<and> (\<exists>h'. add_child family 2 (Row 0) = Inr h' \<and> children (h' ! 2) = children (family ! 2) @ [0])"
proof -
  have a: "1 < length family" "2 < length family" by (simp_all add: family_def)
  have b: "1 \<in> set (children (family ! 0))" "2 \<notin> set (children (family ! 0))"
    by (simp_all add: family_def)
  from add_child_guard [OF a(1), of 0] b(1)
  have c: "add_child family 1 (Row 0) = Inl (ValueError Circular)" by blast
  from add_child_guard [OF a(2), of 0] b(2)
  have d: "\<exists>h'. add_child family 2 (Row 0) = Inr h'
             \<and> children (h' ! 2) = children (family ! 2) @ [0]" by blast
  from a b c d show ?thesis by blast
qed

text \<open>
  A child that is already present is added a second time: \<open>Mother.add_child(Kid)\<close>
  succeeds and leaves the children \<open>[Kid, Kid]\<close>.
\<close>

theorem add_child_again_counterexample:
  "1 \<in> set (children (family ! 0))
   \<and> add_child family 0 (Row 1) =
       Inr (family[0 := (family ! 0)\<lparr>children := [1, 1]\<rparr>])"
  by (simp add: add_child_def family_def)

section \<open>The depth of a row\<close>

lemma lstrip_length:
  "length s - length (lstrip ind s) = length (takeWhile (\<lambda>c. c \<in> set ind) s)"
proof -
  have "length (takeWhile (\<lambda>c. c \<in> set ind) s) + length (dropWhile (\<lambda>c. c \<in> set ind) s) = length s"
    by (metis length_append takeWhile_dropWhile_id)
  then show ?thesis by (simp add: lstrip_def)
qed

lemma take_replicate_iff:
  "take k s = replicate k c \<longleftrightarrow> k \<le> length (takeWhile (\<lambda>x. x = c) s)"
proof (induction k arbitrary: s)
  case 0
  then show ?case by simp
next
  case (Suc k)
  show ?case
  proof (cases s)
    case Nil
    then show ?thesis by simp
  next
    case (Cons x xs)
    then show ?thesis using Suc.IH [of xs] by auto
  qed
qed

lemma takeWhile_drop_run:
  "k \<le> length (takeWhile P s) \<Longrightarrow>
   length (takeWhile P (drop k s)) = length (takeWhile P s) - k"
proof (induction k arbitrary: s)
  case 0
  then show ?case by simp
next
  case (Suc k)
  then show ?case by (cases s) (auto split: if_splits)
qed

lemma prefix_count_replicate:
  "0 < k \<Longrightarrow> prefix_count (replicate k c) s = length (takeWhile (\<lambda>x. x = c) s) div k"
proof (induction "length s" arbitrary: s rule: less_induct)
  case less
  let ?n = "length (takeWhile (\<lambda>x. x = c) s)"
  show ?case
  proof (cases "k \<le> ?n")
    case True
    then have t: "take k s = replicate k c" by (simp add: take_replicate_iff)
    have "?n \<le> length s" by (rule length_takeWhile_le)
    with True less.prems have "length (drop k s) < length s" by simp
    then have "prefix_count (replicate k c) (drop k s) = length (takeWhile (\<lambda>x. x = c) (drop k s)) div k"
      using less.hyps less.prems by blast
    also have "\<dots> = (?n - k) div k" using True by (simp add: takeWhile_drop_run)
    finally have "prefix_count (replicate k c) s = Suc ((?n - k) div k)"
      using t less.prems by (subst prefix_count.simps) simp
    also have "\<dots> = ?n div k" using True less.prems
      by (simp add: le_div_geq)
    finally show ?thesis .
  next
    case False
    then have "take k s \<noteq> replicate k c" by (simp add: take_replicate_iff)
    then have "prefix_count (replicate k c) s = 0"
      by (subst prefix_count.simps) simp
    with False show ?thesis by simp
  qed
qed

text \<open>
  C7, as the code has it. For a non-empty indentation unit the depth is the number of
  leading characters of the capture that occur in the unit (what \<open>lstrip\<close> removes),
  divided by the length of the unit. When the unit repeats a single character, as
  the tab and the two blanks do, this is the number of times the unit literally
  prefixes the capture.
\<close>

theorem depth_of_counts_units:
  assumes "ind \<noteq> []"
  shows "depth_of ind name_raw =
           Inr ((length name_raw - length (lstrip ind name_raw)) div length ind)
       \<and> (\<forall>c k. ind = replicate k c \<longrightarrow> depth_of ind name_raw = Inr (prefix_count ind name_raw))"
proof
  show "depth_of ind name_raw =
           Inr ((length name_raw - length (lstrip ind name_raw)) div length ind)"
    using assms by (simp add: depth_of_def)
next
  show "\<forall>c k. ind = replicate k c \<longrightarrow> depth_of ind name_raw = Inr (prefix_count ind name_raw)"
  proof (intro allI impI)
    fix c k
    assume r: "ind = replicate k c"
    with assms have k: "0 < k" by (cases k) auto
    then have "set ind = {c}" using r by auto
    then have "length name_raw - length (lstrip ind name_raw)
                 = length (takeWhile (\<lambda>x. x = c) name_raw)"
      by (simp add: lstrip_length)
    then show "depth_of ind name_raw = Inr (prefix_count ind name_raw)"
      using k r by (simp add: depth_of_def prefix_count_replicate)
  qed
qed

theorem depth_of_counts_units_witness:
  "''  '' \<noteq> [] \<and> ''  '' = replicate 2 CHR '' '' \<and> depth_of ''  '' ''    x '' = Inr 2
   \<and> prefix_count ''  '' ''    x '' = 2"
proof -
  have a: "''  '' \<noteq> []" by simp
  have r: "''  '' = replicate 2 CHR '' ''" by (simp add: numeral_2_eq_2)
  have d: "depth_of ''  '' ''    x '' = Inr 2" by code_simp
  from depth_of_counts_units [OF a, of "''    x ''"] r
  have "depth_of ''  '' ''    x '' = Inr (prefix_count ''  '' ''    x '')" by blast
  with a r d show ?thesis by simp
qed

text \<open>
  With the unit \<open>ab\<close>, the line \<open>ba 1.0\<close> has the capture \<open>ba \<close>, of depth 1, which
  the unit does not prefix at all.
\<close>

theorem depth_of_prefix_counterexample:
  "row_regex_search 1 ''ba 1.0'' = Some (''ba '', [''1.0''])
   \<and> depth_of ''ab'' ''ba '' = Inr 1 \<and> prefix_count ''ab'' ''ba '' = 0"
  by code_simp

subsection \<open>Items of a row\<close>

text \<open>The attributes that \<open>__init__\<close> sets have lower-case names.\<close>

lemma lower_char_idem: "lower_char (lower_char c) = lower_char c"
proof (cases "map_of (zip ''ABCDEFGHIJKLMNOPQRSTUVWXYZ'' ''abcdefghijklmnopqrstuvwxyz'') c")
  case None
  then show ?thesis by (simp add: lower_char_def)
next
  case (Some l)
  then have "(c, l) \<in> set (zip ''ABCDEFGHIJKLMNOPQRSTUVWXYZ'' ''abcdefghijklmnopqrstuvwxyz'')"
    by (rule map_of_SomeD)
  then have "l \<in> set ''abcdefghijklmnopqrstuvwxyz''" by (rule set_zip_rightD)
  moreover have "\<forall>l \<in> set ''abcdefghijklmnopqrstuvwxyz''.
      map_of (zip ''ABCDEFGHIJKLMNOPQRSTUVWXYZ'' ''abcdefghijklmnopqrstuvwxyz'') l = None"
    by code_simp
  ultimately have "map_of (zip ''ABCDEFGHIJKLMNOPQRSTUVWXYZ'' ''abcdefghijklmnopqrstuvwxyz'') l = None"
    by blast
  with Some show ?thesis by (simp add: lower_char_def)
qed

lemma lower_idem: "lower (lower k) = lower k"
  by (simp add: lower_def lower_char_idem)

lemma init_setattr_keys:
  "init_setattr fs key v = Inr fs' \<Longrightarrow> fst ` set fs' = insert key (fst ` set fs)"
  by (auto simp: init_setattr_def split: if_splits)

lemma init_loop_lower:
  "init_loop py fs kw = Inr fs' \<Longrightarrow> \<forall>k \<in> fst ` set fs. lower k = k \<Longrightarrow>
   \<forall>k \<in> fst ` set fs'. lower k = k"
proof (induction kw arbitrary: fs)
  case Nil
  then show ?case by simp
next
  case (Cons kv kw)
  obtain k v where kv: "kv = (k, v)" by (cases kv)
  from Cons.prems(1) obtain fs1 where
    s: "init_setattr fs (lower k) v = Inr fs1" and l: "init_loop py fs1 kw = Inr fs'"
    by (auto simp: kv Let_def split: sum.splits bool.splits)
  from init_setattr_keys [OF s] Cons.prems(2) have "\<forall>k \<in> fst ` set fs1. lower k = k"
    by (simp add: lower_idem)
  with l show ?case by (rule Cons.IH)
qed

lemma RowData_init_lower:
  assumes "RowData_init py nm kw = Inr row"
  shows "\<forall>k \<in> fst ` set (attrs row). lower k = k"
proof -
  from assms obtain fs where l: "init_loop py [] kw = Inr fs"
    and a: "attrs row = filter (\<lambda>(k, v). k \<noteq> ''_parent'' \<and> k \<noteq> ''_children'') fs"
    by (auto simp: RowData_init_def split: sum.splits if_splits)
  from init_loop_lower [OF l] have "\<forall>k \<in> fst ` set fs. lower k = k" by simp
  then show ?thesis unfolding a by auto
qed

text \<open>So have the attributes of the class.\<close>

lemma lower_named:
  "\<forall>a \<in> set ([''children'', ''child_names'', ''child_dict'', ''parent'', ''name'', ''data'',
                ''_parent'', ''_children''] @ method_names). lower a = a"
  by code_simp

lemma getattr_lower:
  assumes "\<forall>a \<in> set (object_attrs py). lower a = a"
    and "\<forall>k \<in> fst ` set (attrs (h ! self)). lower k = k"
    and "getattr py h self a = Some v"
  shows "lower a = a"
proof -
  have "a \<in> set ([''children'', ''child_names'', ''child_dict'', ''parent'', ''name'',
                ''data'', ''_parent'', ''_children''] @ method_names)
      \<or> a \<in> fst ` set (attrs (h ! self)) \<or> a \<in> set (object_attrs py)"
  proof (cases "map_of (attrs (h ! self)) a")
    case None
    with assms(3) show ?thesis
      by (auto simp: getattr_def split: if_splits)
  next
    case (Some x)
    then have "(a, x) \<in> set (attrs (h ! self))" by (rule map_of_SomeD)
    then have "a \<in> fst ` set (attrs (h ! self))" by force
    then show ?thesis by simp
  qed
  then show ?thesis using lower_named assms(1,2) by blast
qed

lemma map_of_dict_set: "map_of (dict_set d k v) = (map_of d)(k \<mapsto> v)"
  by (induction d k v rule: dict_set.induct) (auto simp: fun_eq_iff)

lemma map_of_dict_update: "map_of (dict_update d e) = map_of d ++ map_of (rev e)"
  unfolding dict_update_def
proof (induction e arbitrary: d)
  case Nil
  then show ?case by simp
next
  case (Cons kv e)
  obtain k v where kv: "kv = (k, v)" by (cases kv)
  have "map_of (foldl (\<lambda>d (k, v). dict_set d k v) (dict_set d k v) e)
          = map_of (dict_set d k v) ++ map_of (rev e)"
    by (rule Cons.IH)
  then show ?case
    by (simp add: kv map_of_dict_set map_add_def fun_eq_iff split: option.splits)
qed

lemma map_of_rev_named:
  "map_of (rev (map (\<lambda>c. (f c, c)) cs)) k =
     (if k \<in> f ` set cs then Some (last (filter (\<lambda>c. f c = k) cs)) else None)"
  by (induction cs rule: rev_induct) auto

lemma child_dict_lookup:
  "map_of (child_dict h self) key =
     (if key \<in> set (child_names h self)
      then Some (last (filter (\<lambda>c. name (h ! c) = key) (children (h ! self))))
      else None)"
  by (simp add: child_dict_def child_names_def dict_of_def map_of_dict_update map_of_rev_named)

text \<open>
  C8. The attribute names are in lower case (\<open>__init__\<close> lowers the keys it sets),
  so an attribute that equals the key up to case is found, and its value is the
  item. Without such an attribute the item is the child of that name, the last one
  if several have it; without such a child the lookup raises \<open>IndexError\<close>, and no
  other exception ever leaves \<open>__getitem__\<close>.
\<close>

theorem getitem_lookup:
  assumes "\<forall>a \<in> set (object_attrs py). lower a = a"
    and "\<forall>k \<in> fst ` set (attrs (h ! self)). lower k = k"
  shows "(\<forall>a v. getattr py h self a = Some v \<and> lower a = lower key \<longrightarrow>
            getitem py h self key = Inr v)
       \<and> ((\<forall>a. lower a = lower key \<longrightarrow> getattr py h self a = None)
            \<and> key \<in> set (child_names h self) \<longrightarrow>
            getitem py h self key =
              Inr (RowRef (Some (last (filter (\<lambda>c. name (h ! c) = key) (children (h ! self)))))))
       \<and> ((\<forall>a. lower a = lower key \<longrightarrow> getattr py h self a = None)
            \<and> key \<notin> set (child_names h self) \<longrightarrow>
            getitem py h self key = Inl (IndexError (NoElement key)))
       \<and> (\<forall>e. getitem py h self key = Inl e \<longrightarrow> e = IndexError (NoElement key))"
proof (intro conjI allI impI)
  fix a v
  assume a: "getattr py h self a = Some v \<and> lower a = lower key"
  then have la: "a = lower key" using getattr_lower [OF assms] by metis
  show "getitem py h self key = Inr v"
  proof (cases "getattr py h self key")
    case None
    then show ?thesis using a la by (simp add: getitem_def)
  next
    case (Some w)
    then have "lower key = key" using getattr_lower [OF assms] by blast
    with Some a la show ?thesis by (simp add: getitem_def)
  qed
next
  assume n: "(\<forall>a. lower a = lower key \<longrightarrow> getattr py h self a = None)
            \<and> key \<in> set (child_names h self)"
  then have "getattr py h self key = None" "getattr py h self (lower key) = None"
    by (blast, metis getattr_lower [OF assms] not_Some_eq)
  with n show "getitem py h self key =
              Inr (RowRef (Some (last (filter (\<lambda>c. name (h ! c) = key) (children (h ! self))))))"
    by (simp add: getitem_def child_dict_lookup)
next
  assume n: "(\<forall>a. lower a = lower key \<longrightarrow> getattr py h self a = None)
            \<and> key \<notin> set (child_names h self)"
  then have "getattr py h self key = None" "getattr py h self (lower key) = None"
    by (blast, metis getattr_lower [OF assms] not_Some_eq)
  with n show "getitem py h self key = Inl (IndexError (NoElement key))"
    by (simp add: getitem_def)
next
  fix e
  assume "getitem py h self key = Inl e"
  then show "e = IndexError (NoElement key)"
    by (auto simp: getitem_def child_dict_lookup split: option.splits if_splits)
qed


theorem getitem_lookup_witness:
  "list_all (\<lambda>a. lower a = a) (object_attrs cpython)
   \<and> list_all (\<lambda>k. lower k = k) (map fst (attrs (family ! 0)))
   \<and> getattr cpython family 0 ''max'' = Some (Value (PyFloat ''3.0''))
   \<and> lower ''max'' = lower ''MAX''
   \<and> getitem cpython family 0 ''MAX'' = Inr (Value (PyFloat ''3.0''))
   \<and> ''Kid'' \<in> set (child_names family 0)
   \<and> getitem cpython family 0 ''Kid'' = Inr (RowRef (Some 1))
   \<and> ''Nobody'' \<notin> set (child_names family 0)
   \<and> getitem cpython family 0 ''Nobody'' = Inl (IndexError (NoElement ''Nobody''))"
proof -
  have o: "\<forall>a \<in> set (object_attrs cpython). lower a = a" by code_simp
  have k: "\<forall>k \<in> fst ` set (attrs (family ! 0)). lower k = k" by code_simp
  have g: "getattr cpython family 0 ''max'' = Some (Value (PyFloat ''3.0''))"
    "lower ''max'' = lower ''MAX''" by code_simp+
  have n: "getattr cpython family 0 (lower ''Kid'') = None"
    "getattr cpython family 0 (lower ''Nobody'') = None" by code_simp+
  have c: "''Kid'' \<in> set (child_names family 0)" "''Nobody'' \<notin> set (child_names family 0)"
    "last (filter (\<lambda>c. name (family ! c) = ''Kid'') (children (family ! 0))) = 1"
    by code_simp+
  have none: "\<forall>a. lower a = lower key \<longrightarrow> getattr cpython family 0 a = None"
    if "getattr cpython family 0 (lower key) = None" for key
  proof (intro allI impI)
    fix a
    assume a: "lower a = lower key"
    show "getattr cpython family 0 a = None"
    proof (rule ccontr)
      assume "getattr cpython family 0 a \<noteq> None"
      then obtain v where v: "getattr cpython family 0 a = Some v" by blast
      from getattr_lower [OF o k v] a that v show False by simp
    qed
  qed
  note t = getitem_lookup [OF o k]
  from t [of "''MAX''"] g
  have 1: "getitem cpython family 0 ''MAX'' = Inr (Value (PyFloat ''3.0''))" by blast
  from t [of "''Kid''"] none [OF n(1)] c(1)
  have "getitem cpython family 0 ''Kid'' =
          Inr (RowRef (Some (last (filter (\<lambda>c. name (family ! c) = ''Kid'')
                                     (children (family ! 0))))))" by blast
  with c(3) have 2: "getitem cpython family 0 ''Kid'' = Inr (RowRef (Some 1))" by simp
  from t [of "''Nobody''"] none [OF n(2)] c(2)
  have 3: "getitem cpython family 0 ''Nobody'' = Inl (IndexError (NoElement ''Nobody''))"
    by blast
  have "list_all (\<lambda>a. lower a = a) (object_attrs cpython)"
    "list_all (\<lambda>k. lower k = k) (map fst (attrs (family ! 0)))"
    using o k by (simp_all add: list_all_iff)
  with g c 1 2 3 show ?thesis by blast
qed


subsection \<open>The path to a row\<close>

lemma get_parents_chain:
  "ancestor_chain h r ps \<Longrightarrow> acc < length ls \<Longrightarrow> length ps < n \<Longrightarrow>
   \<exists>ls' ref. get_parents n h ls r acc = Some (ls @ ls', ref)
            \<and> ref < length (ls @ ls') \<and> (ls @ ls') ! ref = rev ps @ ls ! acc"
proof (induction ps arbitrary: n r ls acc)
  case Nil
  then obtain m where n: "n = Suc m" by (cases n) auto
  from Nil show ?case by (simp add: n)
next
  case (Cons p ps)
  then obtain m where n: "n = Suc m" by (cases n) auto
  let ?ls = "ls @ [p # ls ! acc]"
  from Cons.prems have c: "ancestor_chain h p ps" and par: "parent (h ! r) = Some p"
    and m: "length ps < m" by (simp_all add: n)
  have "length ls < length ?ls" by simp
  from Cons.IH [OF c this m] obtain ls' ref where
    g: "get_parents m h ?ls p (length ls) = Some (?ls @ ls', ref)"
    and r: "ref < length (?ls @ ls')"
    and v: "(?ls @ ls') ! ref = rev ps @ ?ls ! length ls" by blast
  have "get_parents n h ls r acc = Some (ls @ ([p # ls ! acc] @ ls'), ref)"
    using g par by (simp add: n)
  moreover have "(ls @ ([p # ls ! acc] @ ls')) ! ref = rev (p # ps) @ ls ! acc"
    using v by simp
  moreover have "ref < length (ls @ ([p # ls ! acc] @ ls'))" using r by simp
  ultimately show ?case by blast
qed

text \<open>
  C9. In a forest every row has a chain of ancestors \<open>ps\<close>, nearest first. A call of
  \<open>get_parents()\<close> with the default accumulator still empty returns a list that
  holds the chain from the furthest root down to the parent (\<open>rev ps\<close>, the empty
  list for a root), and leaves the default empty: every later call, on any row,
  returns the path of that row again.
\<close>

theorem get_parents_path:
  fixes h :: "'f RowData list"
  assumes "ancestor_chain h r ps" and "ls \<noteq> []" and "ls ! 0 = []"
  shows "\<exists>ls' ref. get_parents (Suc (length ps)) h ls r 0 = Some (ls @ ls', ref)
           \<and> (ls @ ls') ! ref = rev ps
           \<and> (ls @ ls') ! 0 = []
           \<and> (\<forall>r2 ps2. ancestor_chain h r2 ps2 \<longrightarrow>
                (\<exists>ls'' ref2. get_parents (Suc (length ps2)) h (ls @ ls') r2 0
                                 = Some (ls @ ls' @ ls'', ref2)
                            \<and> (ls @ ls' @ ls'') ! ref2 = rev ps2))"
proof -
  from assms(2) have z: "0 < length ls" by simp
  from get_parents_chain [OF assms(1) z, of "Suc (length ps)"] assms(3)
  obtain ls' ref where g: "get_parents (Suc (length ps)) h ls r 0 = Some (ls @ ls', ref)"
    and v: "(ls @ ls') ! ref = rev ps" by auto
  have d: "(ls @ ls') ! 0 = []" using z assms(3) by (simp add: nth_append)
  have "\<exists>ls'' ref2. get_parents (Suc (length ps2)) h (ls @ ls') r2 0
                                 = Some (ls @ ls' @ ls'', ref2)
                            \<and> (ls @ ls' @ ls'') ! ref2 = rev ps2"
    if c: "ancestor_chain h r2 ps2" for r2 ps2
  proof -
    have z': "0 < length (ls @ ls')" using z by simp
    from get_parents_chain [OF c z', of "Suc (length ps2)"] d
    show ?thesis by auto
  qed
  with g v d show ?thesis by blast
qed

theorem get_parents_path_witness:
  "ancestor_chain family 1 [0] \<and> lists0 \<noteq> [] \<and> lists0 ! 0 = []
   \<and> get_parents 2 family lists0 1 0 = Some ([[], [0]], 1)
   \<and> ancestor_chain family 0 []
   \<and> get_parents 1 family [[], [0]] 0 0 = Some ([[], [0]], 0)
   \<and> get_parents 2 family [[], [0]] 1 0 = Some ([[], [0], [0]], 2)"
proof -
  have a: "ancestor_chain family 1 [0]" "lists0 \<noteq> []" "lists0 ! 0 = []"
    "ancestor_chain family 0 []"
    by (simp_all add: family_def lists0_def)
  have e: "get_parents 2 family lists0 1 0 = Some ([[], [0]], 1)"
    "get_parents 1 family [[], [0]] 0 0 = Some ([[], [0]], 0)"
    "get_parents 2 family [[], [0]] 1 0 = Some ([[], [0], [0]], 2)"
    by code_simp+
  from get_parents_path [OF a(1,2,3)] obtain ls' ref where
    "get_parents (Suc (length [0::nat])) family lists0 1 0 = Some (lists0 @ ls', ref)" by blast
  with a e show ?thesis by simp
qed

section \<open>Properties of the parser\<close>

subsection \<open>The loop, step by step\<close>

lemma RowData_init_fresh:
  "RowData_init py nm kw = Inr row \<Longrightarrow> parent row = None \<and> children row = [] \<and> name row = nm"
  by (auto simp: RowData_init_def split: sum.splits if_splits)

lemma make_row_fresh:
  "make_row py p name_raw groups = Inr row \<Longrightarrow> parent row = None \<and> children row = []"
  by (auto simp: make_row_def Let_def dest: RowData_init_fresh)

lemma parse_loop_append:
  "parse_loop py st (xs @ ys) =
     (case parse_loop py st xs of Inl e \<Rightarrow> Inl e | Inr st' \<Rightarrow> parse_loop py st' ys)"
  by (induction xs arbitrary: st) (auto split: sum.splits)

lemma parse_loop_unmatched:
  "\<forall>l \<in> set ls. l = [] \<or> row_regex_search (row_regex (parser st)) l = None \<Longrightarrow>
   parse_loop py st ls = Inr st"
  by (induction ls) (auto simp: parse_line_def)

lemma parse_line_matched:
  assumes "line \<noteq> []"
    and "row_regex_search (row_regex (parser st)) line = Some (name_raw, groups)"
    and "make_row py (parser st) name_raw groups = Inr row"
    and "depth_of (subcategory_indention (parser st)) name_raw = Inr depth"
  shows "parse_line py st line = attach (append_row st row) (length (heap st)) depth"
  using assms by (simp add: parse_line_def)

lemma depth_of_total:
  "ind \<noteq> [] \<Longrightarrow> \<exists>d. depth_of ind name_raw = Inr d"
  by (simp add: depth_of_def)

text \<open>What \<open>set_child_parent_relation\<close> and \<open>attach\<close> leave alone.\<close>

lemma set_child_parent_relation_frame:
  assumes "set_child_parent_relation h a q = Inr h'"
  shows "length h' = length h"
    and "r \<noteq> a \<Longrightarrow> parent (h' ! r) = parent (h ! r)"
    and "name (h' ! r) = name (h ! r)"
proof -
  from assms obtain h1 where
    h1: "h1 = h[a := (h ! a)\<lparr>parent := Some q\<rparr>]" and
    h': "h' = h1[q := (h1 ! q)\<lparr>children := children (h1 ! q) @ [a]\<rparr>]"
    by (auto simp: set_child_parent_relation_def set_parent_def add_child_def
             split: sum.splits if_splits)
  show "length h' = length h" by (simp add: h1 h')
  show "r \<noteq> a \<Longrightarrow> parent (h' ! r) = parent (h ! r)"
    by (cases "q < length h"; cases "r = q") (simp_all add: h1 h' list_update_beyond)
  show "name (h' ! r) = name (h ! r)"
    by (cases "q < length h"; cases "a < length h"; cases "r = q"; cases "r = a")
       (simp_all add: h1 h' list_update_beyond)
qed

lemma attach_frame:
  assumes "attach st a depth = Inr st'"
  shows "length (heap st') = length (heap st)"
    and "r \<noteq> a \<Longrightarrow> parent (heap st' ! r) = parent (heap st ! r)"
    and "parser st' = parser st"
  using assms
  by (auto simp: attach_def split: option.splits if_splits list.splits sum.splits
           dest: set_child_parent_relation_frame)

lemma parse_line_frame:
  assumes "parse_line py st line = Inr st'"
  shows "length (heap st) \<le> length (heap st')"
    and "r < length (heap st) \<Longrightarrow> parent (heap st' ! r) = parent (heap st ! r)"
    and "set (rows (parser st)) \<subseteq> set (rows (parser st'))"
proof -
  have "length (heap st) \<le> length (heap st')
      \<and> (r < length (heap st) \<longrightarrow> parent (heap st' ! r) = parent (heap st ! r))
      \<and> set (rows (parser st)) \<subseteq> set (rows (parser st'))"
  proof (cases "st' = st")
    case True
    then show ?thesis by simp
  next
    case False
    with assms obtain row depth where
      a: "attach (append_row st row) (length (heap st)) depth = Inr st'"
      by (auto simp: parse_line_def split: if_splits option.splits sum.splits)
    from attach_frame(1) [OF a] have l: "length (heap st') = Suc (length (heap st))"
      by (simp add: append_row_def)
    have p: "r < length (heap st) \<longrightarrow> parent (heap st' ! r) = parent (heap st ! r)"
    proof
      assume r: "r < length (heap st)"
      then have "parent (heap st' ! r) = parent (heap (append_row st row) ! r)"
        using attach_frame(2) [OF a, of r] by simp
      with r show "parent (heap st' ! r) = parent (heap st ! r)"
        by (simp add: append_row_def nth_append)
    qed
    from attach_frame(3) [OF a] have "set (rows (parser st)) \<subseteq> set (rows (parser st'))"
      by (auto simp: append_row_def)
    with l p show ?thesis by simp
  qed
  then show "length (heap st) \<le> length (heap st')"
    and "r < length (heap st) \<Longrightarrow> parent (heap st' ! r) = parent (heap st ! r)"
    and "set (rows (parser st)) \<subseteq> set (rows (parser st'))"
    by blast+
qed

lemma parse_loop_frame:
  "parse_loop py st ls = Inr st' \<Longrightarrow>
   length (heap st) \<le> length (heap st')
   \<and> (\<forall>r < length (heap st). parent (heap st' ! r) = parent (heap st ! r))
   \<and> set (rows (parser st)) \<subseteq> set (rows (parser st'))"
proof (induction ls arbitrary: st)
  case Nil
  then show ?case by simp
next
  case (Cons l ls)
  then obtain st1 where s1: "parse_line py st l = Inr st1" and s2: "parse_loop py st1 ls = Inr st'"
    by (auto split: sum.splits)
  note ih = Cons.IH [OF s2] and f = parse_line_frame [OF s1]
  have "length (heap st) \<le> length (heap st')" using ih f(1) by linarith
  moreover have "\<forall>r < length (heap st). parent (heap st' ! r) = parent (heap st ! r)"
  proof (intro allI impI)
    fix r assume r: "r < length (heap st)"
    then have "r < length (heap st1)" using f(1) by linarith
    then have "parent (heap st' ! r) = parent (heap st1 ! r)" using ih by blast
    with f(2) [OF r] show "parent (heap st' ! r) = parent (heap st ! r)" by simp
  qed
  moreover have "set (rows (parser st)) \<subseteq> set (rows (parser st'))" using ih f(3) by blast
  ultimately show ?case by blast
qed

subsection \<open>Parents and children stay linked\<close>

lemma linked_parent:
  "linked n h \<Longrightarrow> n \<le> r \<Longrightarrow> r < length h \<Longrightarrow> parent (h ! r) = Some q \<Longrightarrow> n \<le> q \<and> q < r"
  unfolding linked_def by blast

lemma linked_child:
  "linked n h \<Longrightarrow> n \<le> q \<Longrightarrow> q < length h \<Longrightarrow> c \<in> set (children (h ! q)) \<Longrightarrow>
   q < c \<and> c < length h"
  unfolding linked_def by blast

lemma linked_iff:
  "linked n h \<Longrightarrow> n \<le> r \<Longrightarrow> r < length h \<Longrightarrow> n \<le> q \<Longrightarrow> q < length h \<Longrightarrow>
   parent (h ! r) = Some q \<longleftrightarrow> r \<in> set (children (h ! q))"
  unfolding linked_def by blast

lemma linked_distinct:
  "linked n h \<Longrightarrow> n \<le> q \<Longrightarrow> q < length h \<Longrightarrow> distinct (children (h ! q))"
  unfolding linked_def by blast

lemma linkedI:
  assumes "\<And>r q. n \<le> r \<Longrightarrow> r < length h \<Longrightarrow> parent (h ! r) = Some q \<Longrightarrow> n \<le> q \<and> q < r"
    and "\<And>q c. n \<le> q \<Longrightarrow> q < length h \<Longrightarrow> c \<in> set (children (h ! q)) \<Longrightarrow> q < c \<and> c < length h"
    and "\<And>r q. n \<le> r \<Longrightarrow> r < length h \<Longrightarrow> n \<le> q \<Longrightarrow> q < length h \<Longrightarrow>
           parent (h ! r) = Some q \<longleftrightarrow> r \<in> set (children (h ! q))"
    and "\<And>q. n \<le> q \<Longrightarrow> q < length h \<Longrightarrow> distinct (children (h ! q))"
  shows "linked n h"
  unfolding linked_def using assms by blast

lemma linked_append:
  assumes l: "linked n h" and p: "parent row = None" and c: "children row = []"
  shows "linked n (h @ [row])"
proof (rule linkedI)
  fix r q
  assume a: "n \<le> r" "r < length (h @ [row])" "parent ((h @ [row]) ! r) = Some q"
  show "n \<le> q \<and> q < r"
  proof (cases "r < length h")
    case True
    with a(3) have "parent (h ! r) = Some q" by (simp add: nth_append)
    with l a(1) True show ?thesis by (rule linked_parent)
  next
    case False
    with a(2) have "r = length h" by simp
    with a(3) p show ?thesis by simp
  qed
next
  fix q x
  assume a: "n \<le> q" "q < length (h @ [row])" "x \<in> set (children ((h @ [row]) ! q))"
  show "q < x \<and> x < length (h @ [row])"
  proof (cases "q < length h")
    case True
    with a(3) have "x \<in> set (children (h ! q))" by (simp add: nth_append)
    with l a(1) True have "q < x \<and> x < length h" by (rule linked_child)
    then show ?thesis by simp
  next
    case False
    with a(2) have "q = length h" by simp
    with a(3) c show ?thesis by simp
  qed
next
  fix r q
  assume a: "n \<le> r" "r < length (h @ [row])" "n \<le> q" "q < length (h @ [row])"
  show "parent ((h @ [row]) ! r) = Some q \<longleftrightarrow> r \<in> set (children ((h @ [row]) ! q))"
  proof (cases "r < length h")
    case r: True
    show ?thesis
    proof (cases "q < length h")
      case True
      with r linked_iff [OF l a(1) r a(3) True] show ?thesis by (simp add: nth_append)
    next
      case False
      with a(4) have q: "q = length h" by simp
      have "parent (h ! r) \<noteq> Some (length h)"
      proof
        assume "parent (h ! r) = Some (length h)"
        with l a(1) r have "n \<le> length h \<and> length h < r" by (rule linked_parent)
        with r show False by simp
      qed
      with r q c show ?thesis by (simp add: nth_append)
    qed
  next
    case False
    with a(2) have r: "r = length h" by simp
    show ?thesis
    proof (cases "q < length h")
      case True
      have "length h \<notin> set (children (h ! q))"
      proof
        assume "length h \<in> set (children (h ! q))"
        with l a(3) True have "q < length h \<and> length h < length h" by (rule linked_child)
        then show False by simp
      qed
      with r True p show ?thesis by (simp add: nth_append)
    next
      case False
      with a(4) have "q = length h" by simp
      with r p c show ?thesis by simp
    qed
  qed
next
  fix q
  assume a: "n \<le> q" "q < length (h @ [row])"
  show "distinct (children ((h @ [row]) ! q))"
  proof (cases "q < length h")
    case True
    with linked_distinct [OF l a(1) True] show ?thesis by (simp add: nth_append)
  next
    case False
    with a(2) have "q = length h" by simp
    with c show ?thesis by simp
  qed
qed

lemma linked_relate:
  assumes l: "linked n h"
    and a: "Suc a = length h" "parent (h ! a) = None" "children (h ! a) = []"
    and q: "n \<le> q" "q < a"
  shows "\<exists>h'. set_child_parent_relation h a q = Inr h' \<and> linked n h' \<and> length h' = length h"
proof -
  define A where "A = (h ! a)\<lparr>parent := Some q\<rparr>"
  define Q where "Q = (h ! q)\<lparr>children := children (h ! q) @ [a]\<rparr>"
  define h' where "h' = h[a := A, q := Q]"
  have na: "n \<le> a" "a < length h" "q < length h" "q \<noteq> a" using a(1) q by simp_all
  have pq: "parent (h ! q) \<noteq> Some a"
  proof
    assume "parent (h ! q) = Some a"
    with l q(1) na(3) have "n \<le> a \<and> a < q" by (rule linked_parent)
    with q(2) show False by simp
  qed
  have res: "set_child_parent_relation h a q = Inr h'"
    using a(2,3) na pq
    by (simp add: set_child_parent_relation_def set_parent_def add_child_def h'_def A_def Q_def)
  have len: "length h' = length h" by (simp add: h'_def)
  have par: "parent (h' ! r) = (if r = a then Some q else parent (h ! r))" if "r < length h" for r
  proof (cases "r = q")
    case True
    with na show ?thesis by (simp add: h'_def Q_def)
  next
    case False
    with that show ?thesis by (simp add: h'_def A_def nth_list_update)
  qed
  have chi: "children (h' ! r) = (if r = q then children (h ! q) @ [a] else children (h ! r))"
    if "r < length h" for r
  proof (cases "r = q")
    case True
    with na show ?thesis by (simp add: h'_def Q_def)
  next
    case False
    with that a(3) show ?thesis by (cases "r = a") (simp_all add: h'_def A_def)
  qed
  have fresh: "a \<notin> set (children (h ! r))" if "n \<le> r" "r < length h" for r
    using linked_iff [OF l na(1,2) that] a(2) by simp
  have top: "r \<le> a" if "r < length h" for r using that a(1) by simp
  have "linked n h'"
  proof (rule linkedI)
    fix r p
    assume b: "n \<le> r" "r < length h'" "parent (h' ! r) = Some p"
    then have r: "r < length h" by (simp add: len)
    show "n \<le> p \<and> p < r"
    proof (cases "r = a")
      case True
      with b(3) r have "p = q" by (simp add: par)
      with q True show ?thesis by simp
    next
      case False
      with b(3) r have "parent (h ! r) = Some p" by (simp add: par)
      with l b(1) r show ?thesis by (rule linked_parent)
    qed
  next
    fix p x
    assume b: "n \<le> p" "p < length h'" "x \<in> set (children (h' ! p))"
    then have p: "p < length h" by (simp add: len)
    show "p < x \<and> x < length h'"
    proof (cases "x \<in> set (children (h ! p))")
      case True
      with l b(1) p have "p < x \<and> x < length h" by (rule linked_child)
      then show ?thesis by (simp add: len)
    next
      case False
      with b(3) p have "p = q \<and> x = a" by (simp add: chi split: if_splits)
      with q(2) na(2) show ?thesis by (simp add: len)
    qed
  next
    fix r p
    assume b: "n \<le> r" "r < length h'" "n \<le> p" "p < length h'"
    then have r: "r < length h" and p: "p < length h" by (simp_all add: len)
    note old = linked_iff [OF l b(1) r b(3) p]
    show "parent (h' ! r) = Some p \<longleftrightarrow> r \<in> set (children (h' ! p))"
    proof (cases "r = a")
      case True
      have "a \<in> set (children (h' ! p)) \<longleftrightarrow> p = q"
        using fresh [OF b(3) p] p by (simp add: chi)
      with True r show ?thesis by (auto simp: par)
    next
      case False
      have "r \<in> set (children (h' ! p)) \<longleftrightarrow> r \<in> set (children (h ! p))"
        using False p by (simp add: chi)
      with False r old show ?thesis by (simp add: par)
    qed
  next
    fix p
    assume b: "n \<le> p" "p < length h'"
    then have p: "p < length h" by (simp add: len)
    from linked_distinct [OF l b(1) p] fresh [OF b(1) p] p
    show "distinct (children (h' ! p))" by (cases "p = q") (simp_all add: chi)
  qed
  with res len show ?thesis by blast
qed

lemma attach_inv:
  assumes l: "linked n (heap st)"
    and a: "Suc a = length (heap st)" "parent (heap st ! a) = None" "children (heap st ! a) = []"
      "n \<le> a"
    and t: "\<And>rt x. row_tree st = Some rt \<Longrightarrow> x \<in> set rt \<Longrightarrow> n \<le> x \<and> x < a"
    and r: "attach st a depth = Inr st'"
  shows "parse_inv n st'"
proof (cases "row_tree st")
  case None
  with r have "st' = st\<lparr>row_tree := Some [a]\<rparr>" by (simp add: attach_def)
  with l a show ?thesis by (simp add: parse_inv_def)
next
  case (Some rt)
  show ?thesis
  proof (cases "take depth rt")
    case Nil
    have "st' = st\<lparr>row_tree := Some [a]\<rparr>"
      using r Some Nil by (auto simp: attach_def split: if_splits list.splits)
    with l a show ?thesis by (simp add: parse_inv_def)
  next
    case (Cons q qs)
    have "last (q # qs) \<in> set (take depth rt)" using Cons by (metis last_in_set list.distinct(1))
    then have "last (q # qs) \<in> set rt" by (rule in_set_takeD)
    with t Some have b: "n \<le> last (q # qs)" "last (q # qs) < a" by blast+
    from linked_relate [OF l a(1,2,3) b] obtain h' where
      h': "set_child_parent_relation (heap st) a (last (q # qs)) = Inr h'"
      "linked n h'" "length h' = length (heap st)" by blast
    have st': "st' = st\<lparr>heap := h', row_tree := Some ((q # qs) @ [a])\<rparr>"
      using r Some Cons h'(1) by (auto simp: attach_def split: if_splits list.splits)
    have mem: "n \<le> x \<and> x < length h'" if "x \<in> set ((q # qs) @ [a])" for x
    proof (cases "x = a")
      case True
      with a h'(3) show ?thesis by simp
    next
      case False
      with that have "x \<in> set (take depth rt)" using Cons by auto
      then have "x \<in> set rt" by (rule in_set_takeD)
      with t Some have "n \<le> x \<and> x < a" by blast
      with a(1) h'(3) show ?thesis by simp
    qed
    have "heap st' = h'" "row_tree st' = Some ((q # qs) @ [a])" by (simp_all add: st')
    moreover have "n \<le> length h'" using a h'(3) by simp
    ultimately show ?thesis unfolding parse_inv_def using h'(2) mem by auto
  qed
qed

lemma parse_line_inv:
  assumes i: "parse_inv n st" and r: "parse_line py st line = Inr st'"
  shows "parse_inv n st'"
proof (cases "st' = st")
  case True
  with i show ?thesis by simp
next
  case False
  with r obtain name_raw groups row depth where
    m: "make_row py (parser st) name_raw groups = Inr row" and
    a: "attach (append_row st row) (length (heap st)) depth = Inr st'"
    by (auto simp: parse_line_def split: if_splits option.splits sum.splits)
  let ?st = "append_row st row"
  from make_row_fresh [OF m] have f: "parent row = None" "children row = []" by simp_all
  have h: "heap ?st = heap st @ [row]" "row_tree ?st = row_tree st"
    by (simp_all add: append_row_def)
  from i have l: "linked n (heap st)" and n: "n \<le> length (heap st)"
    and t: "\<And>rt x. row_tree st = Some rt \<Longrightarrow> x \<in> set rt \<Longrightarrow> n \<le> x \<and> x < length (heap st)"
    unfolding parse_inv_def by blast+
  have 1: "linked n (heap ?st)" using linked_append [OF l f] by (simp add: h)
  have 2: "Suc (length (heap st)) = length (heap ?st)" by (simp add: h)
  have 3: "parent (heap ?st ! length (heap st)) = None"
    "children (heap ?st ! length (heap st)) = []" using f by (simp_all add: h)
  have 4: "n \<le> x \<and> x < length (heap st)" if "row_tree ?st = Some rt" "x \<in> set rt" for rt x
    using that t by (simp add: h)
  show ?thesis by (rule attach_inv [OF 1 2 3 n 4 a])
qed

lemma parse_loop_inv:
  "parse_inv n st \<Longrightarrow> parse_loop py st ls = Inr st' \<Longrightarrow> parse_inv n st'"
proof (induction ls arbitrary: st)
  case Nil
  then show ?case by simp
next
  case (Cons l ls)
  then obtain st1 where s1: "parse_line py st l = Inr st1" and s2: "parse_loop py st1 ls = Inr st'"
    by (auto split: sum.splits)
  from parse_line_inv [OF Cons.prems(1) s1] s2 show ?case by (rule Cons.IH)
qed

lemma linked_start: "linked (length h) h"
  by (rule linkedI) simp_all

lemma count_list_distinct: "distinct xs \<Longrightarrow> x \<in> set xs \<Longrightarrow> count_list xs x = 1"
  by (induction xs) auto

lemma parse_two_lines: "parse_lines cpython [] yutiming two_lines = Inr two_rows"
  by code_simp

lemma parse_line_rows:
  assumes "parse_line py st line = Inr st'"
  shows "rows (parser st') = rows (parser st) @ [length (heap st)..<length (heap st')]"
proof (cases "st' = st")
  case True
  then show ?thesis by simp
next
  case False
  with assms obtain row depth where
    a: "attach (append_row st row) (length (heap st)) depth = Inr st'"
    by (auto simp: parse_line_def split: if_splits option.splits sum.splits)
  from attach_frame(1,3) [OF a] show ?thesis by (simp add: append_row_def)
qed

lemma parse_loop_rows:
  "parse_loop py st ls = Inr st' \<Longrightarrow>
   rows (parser st') = rows (parser st) @ [length (heap st)..<length (heap st')]"
proof (induction ls arbitrary: st)
  case Nil
  then show ?case by simp
next
  case (Cons l ls)
  then obtain st1 where s1: "parse_line py st l = Inr st1" and s2: "parse_loop py st1 ls = Inr st'"
    by (auto split: sum.splits)
  have "length (heap st) \<le> length (heap st1)" using parse_line_frame(1) [OF s1] .
  moreover have "length (heap st1) \<le> length (heap st')" using parse_loop_frame [OF s2] by blast
  ultimately have "[length (heap st)..<length (heap st')]
      = [length (heap st)..<length (heap st1)] @ [length (heap st1)..<length (heap st')]"
    by (metis le_Suc_ex upt_add_eq_append)
  with Cons.IH [OF s2] parse_line_rows [OF s1] show ?case by simp
qed

text \<open>
  C10. After a successful \<open>parse_lines\<close> the rows created by the call are the
  addresses from the old end of the heap on, in the order of \<open>rows\<close>. For two such
  rows \<open>r\<close> and \<open>q\<close>, the parent of \<open>r\<close> is \<open>q\<close> exactly when \<open>r\<close> is among the
  children of \<open>q\<close>; and a row with a parent has an earlier row of the call as parent
  and occurs exactly once among its children.
\<close>

theorem parse_lines_links:
  fixes h :: "'f RowData list"
  assumes "parse_lines py h p lines = Inr st"
  shows "rows (parser st) = rows p @ [length h..<length (heap st)]
       \<and> (\<forall>r q. length h \<le> r \<and> r < length (heap st) \<and> length h \<le> q \<and> q < length (heap st) \<longrightarrow>
            (parent (heap st ! r) = Some q \<longleftrightarrow> r \<in> set (children (heap st ! q))))
       \<and> (\<forall>r q. length h \<le> r \<and> r < length (heap st) \<and> parent (heap st ! r) = Some q \<longrightarrow>
            length h \<le> q \<and> q < r \<and> count_list (children (heap st ! q)) r = 1)"
proof -
  let ?st = "\<lparr>heap = h, parser = p, row_tree = None\<rparr>"
  from assms have loop: "parse_loop py ?st lines = Inr st" by (simp add: parse_lines_def)
  have "parse_inv (length h) ?st" by (simp add: parse_inv_def linked_start)
  from parse_loop_inv [OF this loop] have l: "linked (length h) (heap st)"
    by (simp add: parse_inv_def)
  have 1: "rows (parser st) = rows p @ [length h..<length (heap st)]"
    using parse_loop_rows [OF loop] by simp
  have 2: "parent (heap st ! r) = Some q \<longleftrightarrow> r \<in> set (children (heap st ! q))"
    if "length h \<le> r \<and> r < length (heap st) \<and> length h \<le> q \<and> q < length (heap st)" for r q
    using linked_iff [OF l] that by blast
  have 3: "length h \<le> q \<and> q < r \<and> count_list (children (heap st ! q)) r = 1"
    if a: "length h \<le> r \<and> r < length (heap st) \<and> parent (heap st ! r) = Some q" for r q
  proof -
    from a linked_parent [OF l] have q: "length h \<le> q" "q < r" by blast+
    with a have ql: "q < length (heap st)" by simp
    from a q ql linked_iff [OF l] have "r \<in> set (children (heap st ! q))" by blast
    with linked_distinct [OF l q(1) ql] have "count_list (children (heap st ! q)) r = 1"
      by (rule count_list_distinct)
    with q show ?thesis by simp
  qed
  from 1 2 3 show ?thesis by blast
qed

theorem parse_lines_links_witness:
  "parse_lines cpython [] yutiming two_lines = Inr two_rows
   \<and> rows (parser two_rows) = [0, 1]
   \<and> parent (heap two_rows ! 1) = Some 0
   \<and> 1 \<in> set (children (heap two_rows ! 0))
   \<and> count_list (children (heap two_rows ! 0)) 1 = 1"
proof -
  note t = parse_lines_links [OF parse_two_lines]
  have a: "parent (heap two_rows ! 1) = Some 0" "length (heap two_rows) = 2"
    "rows yutiming = []"
    by (simp_all add: two_rows_def yutiming_def HirarchicalTableParser_init_def)
  from t a have "rows (parser two_rows) = [0..<2]" by simp
  then have r: "rows (parser two_rows) = [0, 1]" by (simp add: upt_rec)
  from t a have "1 \<in> set (children (heap two_rows ! 0))" by simp
  moreover from t a have "count_list (children (heap two_rows ! 0)) 1 = 1" by simp
  ultimately show ?thesis using parse_two_lines a r by simp
qed

subsection \<open>Skipped levels and the first row\<close>

lemma parse_A: "parse_lines cpython [] skip_parser [''A 1.0''] = Inr after_A"
  by code_simp

lemma match_B:
  "''    B 2.0'' \<noteq> []"
  "row_regex_search (row_regex (parser after_A)) ''    B 2.0'' = Some (''    B '', [''2.0''])"
  "make_row cpython (parser after_A) ''    B '' [''2.0''] = Inr row_B"
  "depth_of (subcategory_indention (parser after_A)) ''    B '' = Inr 2"
  by code_simp+

text \<open>
  C2, as the code has it. When the lines before have been parsed, a row has already
  been matched (\<open>row_tree\<close> is a list \<open>rt\<close>) and the next matched row has a depth
  greater than the length of \<open>rt\<close>, \<open>parse_lines\<close> raises the \<open>ValueError\<close> "A
  hirarchical level was skipped!", whose message cites the depth and the length of
  \<open>rt\<close> minus one (the depth of the parent element). The state at that moment has the
  offending row appended to \<open>rows\<close>; the lines after it are not read.
\<close>

theorem level_skipped:
  fixes h :: "'f RowData list"
  assumes "parse_lines py h p pre = Inr st" and "row_tree st = Some rt"
    and "line \<noteq> []"
    and "row_regex_search (row_regex (parser st)) line = Some (name_raw, groups)"
    and "make_row py (parser st) name_raw groups = Inr row"
    and "depth_of (subcategory_indention (parser st)) name_raw = Inr depth"
    and "length rt < depth"
  shows "parse_lines py h p (pre @ line # rest) =
           Inl (ValueError (LevelSkipped depth (int (length rt) - 1)), append_row st row)
       \<and> rows (parser (append_row st row)) = rows (parser st) @ [length (heap st)]
       \<and> heap (append_row st row) ! length (heap st) = row"
proof -
  have "parse_line py st line = attach (append_row st row) (length (heap st)) depth"
    using assms(3-6) by (rule parse_line_matched)
  also have "\<dots> = Inl (ValueError (LevelSkipped depth (int (length rt) - 1)), append_row st row)"
    using assms(2,7) by (simp add: attach_def append_row_def)
  finally have "parse_loop py st (line # rest) =
      Inl (ValueError (LevelSkipped depth (int (length rt) - 1)), append_row st row)"
    by simp
  with assms(1) show ?thesis
    by (simp add: parse_lines_def parse_loop_append append_row_def)
qed

theorem level_skipped_witness:
  "parse_lines cpython [] skip_parser [''A 1.0''] = Inr after_A
   \<and> row_tree after_A = Some [0]
   \<and> depth_of (subcategory_indention (parser after_A)) ''    B '' = Inr 2
   \<and> length [0::nat] < 2
   \<and> parse_lines cpython [] skip_parser ([''A 1.0''] @ ''    B 2.0'' # []) =
       Inl (ValueError (LevelSkipped 2 0),
            \<lparr>heap = [row_A, row_B], parser = skip_parser\<lparr>rows := [0, 1]\<rparr>,
             row_tree = Some [0]\<rparr>)"
proof -
  have t: "row_tree after_A = Some [0]" by (simp add: after_A_def)
  have l: "length [0::nat] < 2" by simp
  from level_skipped [OF parse_A t match_B l, of "[]"]
  have "parse_lines cpython [] skip_parser ([''A 1.0''] @ ''    B 2.0'' # []) =
          Inl (ValueError (LevelSkipped 2 0), append_row after_A row_B)" by simp
  moreover have "append_row after_A row_B =
      \<lparr>heap = [row_A, row_B], parser = skip_parser\<lparr>rows := [0, 1]\<rparr>, row_tree = Some [0]\<rparr>"
    by (simp add: append_row_def after_A_def)
  ultimately show ?thesis using parse_A t match_B(4) l by simp
qed

text \<open>
  After the row \<open>A\<close> the stack has length 1; the row \<open>B\<close> of depth 2 raises the
  error, and the message cites 2 and 0, not the length 1 of the stack.
\<close>

theorem level_skipped_counterexample:
  "parse_lines cpython [] skip_parser [''A 1.0''] = Inr after_A
   \<and> row_tree after_A = Some [0]
   \<and> parse_lines cpython [] skip_parser skip_lines =
       Inl (ValueError (LevelSkipped 2 0),
            \<lparr>heap = [row_A, row_B], parser = skip_parser\<lparr>rows := [0, 1]\<rparr>,
             row_tree = Some [0]\<rparr>)
   \<and> (0::int) \<noteq> int (length [0::nat])"
  by code_simp

text \<open>
  C3. When no line before it matches, a matched line whose row can be constructed
  becomes the only entry of \<open>row_tree\<close>, whatever its depth (the indentation unit is
  not empty, so there is a depth), and the row has no parent; in the state at the end
  of any successful parse of more lines it still has none and is among \<open>rows\<close>.
\<close>

theorem first_row_is_root:
  fixes h :: "'f RowData list"
  assumes "\<forall>l \<in> set pre. l = [] \<or> row_regex_search (row_regex p) l = None"
    and "line \<noteq> []"
    and "row_regex_search (row_regex p) line = Some (name_raw, groups)"
    and "make_row py p name_raw groups = Inr row"
    and "subcategory_indention p \<noteq> []"
  shows "parse_lines py h p (pre @ [line]) =
           Inr \<lparr>heap = h @ [row], parser = p\<lparr>rows := rows p @ [length h]\<rparr>,
                row_tree = Some [length h]\<rparr>
       \<and> parent row = None
       \<and> (\<forall>rest st. parse_lines py h p (pre @ line # rest) = Inr st \<longrightarrow>
             length h < length (heap st) \<and> parent (heap st ! length h) = None
             \<and> length h \<in> set (rows (parser st)))"
proof -
  let ?st = "\<lparr>heap = h, parser = p, row_tree = None\<rparr>"
  let ?st1 = "\<lparr>heap = h @ [row], parser = p\<lparr>rows := rows p @ [length h]\<rparr>,
                row_tree = Some [length h]\<rparr>"
  have pre: "parse_loop py ?st pre = Inr ?st"
    using assms(1) by (intro parse_loop_unmatched) simp
  from assms(5) obtain depth where d: "depth_of (subcategory_indention p) name_raw = Inr depth"
    using depth_of_total by blast
  have "parse_line py ?st line = attach (append_row ?st row) (length (heap ?st)) depth"
    using assms(2,3,4) d by (intro parse_line_matched) simp_all
  also have "\<dots> = Inr ?st1" by (simp add: attach_def append_row_def)
  finally have line: "parse_line py ?st line = Inr ?st1" .
  have 1: "parse_lines py h p (pre @ [line]) = Inr ?st1"
    using pre line by (simp add: parse_lines_def parse_loop_append)
  have 2: "parent row = None" using make_row_fresh [OF assms(4)] by simp
  have 3: "length h < length (heap st) \<and> parent (heap st ! length h) = None
             \<and> length h \<in> set (rows (parser st))"
    if "parse_lines py h p (pre @ line # rest) = Inr st" for rest st
  proof -
    from that pre line have "parse_loop py ?st1 rest = Inr st"
      by (simp add: parse_lines_def parse_loop_append)
    from parse_loop_frame [OF this] 2 show ?thesis by auto
  qed
  from 1 2 3 show ?thesis by blast
qed

lemma match_Deep:
  "row_regex_search (row_regex skip_parser) [] = None"
  "row_regex_search (row_regex skip_parser) ''no number here'' = None"
  "''      Deep 1.0'' \<noteq> []"
  "row_regex_search (row_regex skip_parser) ''      Deep 1.0'' = Some (''      Deep '', [''1.0''])"
  "make_row cpython skip_parser ''      Deep '' [''1.0''] = Inr row_Deep"
  "subcategory_indention skip_parser \<noteq> []"
  "depth_of (subcategory_indention skip_parser) ''      Deep '' = Inr 3"
  by code_simp+

theorem first_row_is_root_witness:
  "list_all (\<lambda>l. l = [] \<or> row_regex_search (row_regex skip_parser) l = None)
     ['''', ''no number here'']
   \<and> row_regex_search (row_regex skip_parser) ''      Deep 1.0''
       = Some (''      Deep '', [''1.0''])
   \<and> depth_of (subcategory_indention skip_parser) ''      Deep '' = Inr 3
   \<and> parse_lines cpython [] skip_parser deep_lines =
       Inr \<lparr>heap = [row_Deep], parser = skip_parser\<lparr>rows := [0]\<rparr>, row_tree = Some [0]\<rparr>
   \<and> parent row_Deep = None"
proof -
  have u: "\<forall>l \<in> set ['''', ''no number here'']. l = []
             \<or> row_regex_search (row_regex skip_parser) l = None"
    using match_Deep(1,2) by simp
  have r: "rows skip_parser = []"
    by (simp add: skip_parser_def HirarchicalTableParser_init_def)
  from first_row_is_root [OF u match_Deep(3,4,5,6), of "[]"] r
  have "parse_lines cpython [] skip_parser deep_lines =
       Inr \<lparr>heap = [row_Deep], parser = skip_parser\<lparr>rows := [0]\<rparr>, row_tree = Some [0]\<rparr>"
    "parent row_Deep = None"
    by (simp_all add: deep_lines_def)
  with u match_Deep show ?thesis by (simp add: list_all_iff)
qed

subsection \<open>The round trip of two levels\<close>

lemma make_row_yutiming:
  assumes "\<forall>k \<in> set (data_col_names yutiming). k \<notin> set (object_attrs py)"
  shows "make_row py yutiming name_raw [a, b, c, d] =
           Inr \<lparr>name = sub_spaces (strip name_raw),
                data = [(''min'', PyFloat (float py (strip a))),
                        (''avg'', PyFloat (float py (strip b))),
                        (''max'', PyFloat (float py (strip c))),
                        (''total'', PyFloat (float py (strip d)))],
                attrs = [(''min'', float py (strip a)), (''avg'', float py (strip b)),
                         (''max'', float py (strip c)), (''total'', float py (strip d))],
                parent = None, children = []\<rparr>"
proof -
  have l: "lower ''min'' = ''min''" "lower ''avg'' = ''avg''" "lower ''max'' = ''max''"
    "lower ''total'' = ''total''" by code_simp+
  have o: "''min'' \<notin> set (object_attrs py)" "''avg'' \<notin> set (object_attrs py)"
    "''max'' \<notin> set (object_attrs py)" "''total'' \<notin> set (object_attrs py)"
    using assms by (simp_all add: yutiming_def HirarchicalTableParser_init_def)
  have c: "data_col_names yutiming = [''min'', ''avg'', ''max'', ''total'']"
    by (simp add: yutiming_def HirarchicalTableParser_init_def)
  show ?thesis
    by (simp add: make_row_def c dict_of_def dict_update_def RowData_init_def l o
        init_hasattr_def init_setattr_def method_names_def)
qed

lemma make_row_rows: "make_row py (p\<lparr>rows := x\<rparr>) name_raw groups = make_row py p name_raw groups"
  by (simp add: make_row_def)

lemma as_dict_leaf:
  "r < length h \<Longrightarrow> children (h ! r) = [] \<Longrightarrow> as_dict (Suc m) h r = Some (h, DataOf r)"
  by (simp add: dict_update_def)

lemma lines_matched:
  "row_regex_search 4 ''Root 1.0 2.0 3.0 4.0'' = Some (''Root '', [''1.0'', ''2.0'', ''3.0'', ''4.0''])"
  "row_regex_search 4 ''  Child 0.1 0.2 0.3 0.4''
     = Some (''  Child '', [''0.1'', ''0.2'', ''0.3'', ''0.4''])"
  "depth_of ''  '' ''Root '' = Inr 0"
  "depth_of ''  '' ''  Child '' = Inr 1"
  "sub_spaces (strip ''Root '') = ''Root''"
  "sub_spaces (strip ''  Child '') = ''Child''"
  "map strip [''1.0'', ''2.0'', ''3.0'', ''4.0'', ''0.1'', ''0.2'', ''0.3'', ''0.4'']
     = [''1.0'', ''2.0'', ''3.0'', ''4.0'', ''0.1'', ''0.2'', ''0.3'', ''0.4'']"
  by code_simp+

text \<open>
  C1. The column names of \<open>yutiming\<close> are no attributes of \<open>object\<close>. Then the two
  lines parse to a forest with the single root \<open>Root\<close>, whose only child is
  \<open>Child\<close>, a leaf. \<open>Root.as_dict()\<close> returns the dictionary of \<open>Root\<close>, which
  holds the four fields and the entry \<open>Child\<close>, the dictionary of \<open>Child\<close>; there
  \<open>max\<close> is the number read from \<open>0.3\<close>. Two levels of recursion suffice. On a
  leaf of any heap, \<open>as_dict()\<close> returns the dictionary of the row and changes
  nothing.
\<close>

theorem two_level_round_trip:
  fixes py :: "'f python"
  assumes "\<forall>k \<in> set (data_col_names yutiming). k \<notin> set (object_attrs py)"
  shows "(\<exists>st h'. parse_lines py [] yutiming two_lines = Inr st
          \<and> row_names (heap st) (parser st) = [''Root'']
          \<and> rows (parser st) = [0, 1]
          \<and> name (heap st ! 0) = ''Root'' \<and> children (heap st ! 0) = [1]
          \<and> name (heap st ! 1) = ''Child'' \<and> children (heap st ! 1) = []
          \<and> data (heap st ! 0) =
               [(''min'', PyFloat (float py ''1.0'')), (''avg'', PyFloat (float py ''2.0'')),
                (''max'', PyFloat (float py ''3.0'')), (''total'', PyFloat (float py ''4.0''))]
          \<and> as_dict (Suc (Suc n)) (heap st) 0 = Some (h', DataOf 0)
          \<and> data (h' ! 0) = data (heap st ! 0) @ [(''Child'', DataOf 1)]
          \<and> data (h' ! 1) =
               [(''min'', PyFloat (float py ''0.1'')), (''avg'', PyFloat (float py ''0.2'')),
                (''max'', PyFloat (float py ''0.3'')), (''total'', PyFloat (float py ''0.4''))]
          \<and> map_of (data (h' ! 0)) ''Child'' = Some (DataOf 1)
          \<and> map_of (data (h' ! 1)) ''max'' = Some (PyFloat (float py ''0.3'')))
       \<and> (\<forall>(h :: 'f RowData list) r m. r < length h \<and> children (h ! r) = [] \<longrightarrow>
             as_dict (Suc m) h r = Some (h, DataOf r))"
proof -
  define root_data where "root_data =
    [(''min'', PyFloat (float py ''1.0'')), (''avg'', PyFloat (float py ''2.0'')),
     (''max'', PyFloat (float py ''3.0'')), (''total'', PyFloat (float py ''4.0''))]"
  define child_data where "child_data =
    [(''min'', PyFloat (float py ''0.1'')), (''avg'', PyFloat (float py ''0.2'')),
     (''max'', PyFloat (float py ''0.3'')), (''total'', PyFloat (float py ''0.4''))]"
  define root where "root =
    \<lparr>name = ''Root'', data = root_data,
     attrs = [(''min'', float py ''1.0''), (''avg'', float py ''2.0''),
              (''max'', float py ''3.0''), (''total'', float py ''4.0'')],
     parent = None, children = []\<rparr>"
  define child where "child =
    \<lparr>name = ''Child'', data = child_data,
     attrs = [(''min'', float py ''0.1''), (''avg'', float py ''0.2''),
              (''max'', float py ''0.3''), (''total'', float py ''0.4'')],
     parent = None, children = []\<rparr>"
  define st0 :: "'f parse_state" where "st0 = \<lparr>heap = [], parser = yutiming, row_tree = None\<rparr>"
  define st1 where "st1 = \<lparr>heap = [root], parser = yutiming\<lparr>rows := [0]\<rparr>, row_tree = Some [0]\<rparr>"
  define st where "st =
    \<lparr>heap = [root\<lparr>children := [1]\<rparr>, child\<lparr>parent := Some 0\<rparr>],
     parser = yutiming\<lparr>rows := [0, 1]\<rparr>, row_tree = Some [0, 1]\<rparr>"
  define h' where "h' = [root\<lparr>children := [1], data := root_data @ [(''Child'', DataOf 1)]\<rparr>,
                         child\<lparr>parent := Some 0\<rparr>]"
  have y: "row_regex yutiming = 4" "subcategory_indention yutiming = ''  ''"
    "rows yutiming = []"
    by (simp_all add: yutiming_def HirarchicalTableParser_init_def)
  have s: "strip ''1.0'' = ''1.0''" "strip ''2.0'' = ''2.0''" "strip ''3.0'' = ''3.0''"
    "strip ''4.0'' = ''4.0''" "strip ''0.1'' = ''0.1''" "strip ''0.2'' = ''0.2''"
    "strip ''0.3'' = ''0.3''" "strip ''0.4'' = ''0.4''"
    using lines_matched(7) by simp_all
  have r1: "make_row py yutiming ''Root '' [''1.0'', ''2.0'', ''3.0'', ''4.0''] = Inr root"
    by (simp add: make_row_yutiming [OF assms] lines_matched(5) s root_def root_data_def)
  have r2: "make_row py yutiming ''  Child '' [''0.1'', ''0.2'', ''0.3'', ''0.4''] = Inr child"
    by (simp add: make_row_yutiming [OF assms] lines_matched(6) s child_def child_data_def)
  have "parse_line py st0 ''Root 1.0 2.0 3.0 4.0'' = attach (append_row st0 root) (length (heap st0)) 0"
    by (rule parse_line_matched [where name_raw = "''Root ''"
          and groups = "[''1.0'', ''2.0'', ''3.0'', ''4.0'']"])
       (simp_all add: st0_def y lines_matched(1,3) r1)
  also have "\<dots> = Inr st1"
    by (simp add: attach_def append_row_def st0_def st1_def y)
  finally have p1: "parse_line py st0 ''Root 1.0 2.0 3.0 4.0'' = Inr st1" .
  have "parse_line py st1 ''  Child 0.1 0.2 0.3 0.4''
          = attach (append_row st1 child) (length (heap st1)) 1"
    by (rule parse_line_matched [where name_raw = "''  Child ''"
          and groups = "[''0.1'', ''0.2'', ''0.3'', ''0.4'']"])
       (simp_all add: st1_def y lines_matched(2,4) r2 make_row_rows)
  also have "\<dots> = Inr st"
    by (simp add: attach_def append_row_def st1_def st_def set_child_parent_relation_def
        set_parent_def add_child_def root_def child_def y)
  finally have p2: "parse_line py st1 ''  Child 0.1 0.2 0.3 0.4'' = Inr st" .
  have p: "parse_lines py [] yutiming two_lines = Inr st"
    using p1 p2 by (simp add: parse_lines_def two_lines_def st0_def)
  have names: "row_names (heap st) (parser st) = [''Root'']"
    by (simp add: row_names_def st_def root_def child_def)
  have leaf: "as_dict (Suc n) (heap st) 1 = Some (heap st, DataOf 1)"
    by (rule as_dict_leaf) (simp_all add: st_def child_def)
  have d: "as_dict (Suc (Suc n)) (heap st) 0 = Some (h', DataOf 0)"
  proof -
    have c: "children (heap st ! 0) = [Suc 0]" "name (heap st ! Suc 0) = ''Child''"
      by (simp_all add: st_def root_def child_def)
    have leaf': "as_dict (Suc n) (heap st) (Suc 0) = Some (heap st, DataOf (Suc 0))"
      using leaf by simp
    have "as_dict (Suc (Suc n)) (heap st) 0 =
            Some ((heap st)[0 := (heap st ! 0)
                    \<lparr>data := dict_update (data (heap st ! 0)) [(''Child'', DataOf 1)]\<rparr>],
                  DataOf 0)"
      by (subst as_dict.simps(2)) (simp add: c leaf' del: as_dict.simps(2))
    also have "(heap st)[0 := (heap st ! 0)
                    \<lparr>data := dict_update (data (heap st ! 0)) [(''Child'', DataOf 1)]\<rparr>] = h'"
      by (simp add: st_def h'_def root_def child_def root_data_def dict_update_def)
    finally show ?thesis .
  qed
  have "data (h' ! 0) = data (heap st ! 0) @ [(''Child'', DataOf 1)]"
    "data (h' ! 1) = child_data" "data (heap st ! 0) = root_data"
    "map_of (data (h' ! 0)) ''Child'' = Some (DataOf 1)"
    "map_of (data (h' ! 1)) ''max'' = Some (PyFloat (float py ''0.3''))"
    "rows (parser st) = [0, 1]" "name (heap st ! 0) = ''Root''" "children (heap st ! 0) = [1]"
    "name (heap st ! 1) = ''Child''" "children (heap st ! 1) = []"
    by (simp_all add: st_def h'_def root_def child_def root_data_def child_data_def)
  with p names d have "\<exists>st h'. parse_lines py [] yutiming two_lines = Inr st
          \<and> row_names (heap st) (parser st) = [''Root'']
          \<and> rows (parser st) = [0, 1]
          \<and> name (heap st ! 0) = ''Root'' \<and> children (heap st ! 0) = [1]
          \<and> name (heap st ! 1) = ''Child'' \<and> children (heap st ! 1) = []
          \<and> data (heap st ! 0) = root_data
          \<and> as_dict (Suc (Suc n)) (heap st) 0 = Some (h', DataOf 0)
          \<and> data (h' ! 0) = data (heap st ! 0) @ [(''Child'', DataOf 1)]
          \<and> data (h' ! 1) = child_data
          \<and> map_of (data (h' ! 0)) ''Child'' = Some (DataOf 1)
          \<and> map_of (data (h' ! 1)) ''max'' = Some (PyFloat (float py ''0.3''))"
    by blast
  then show ?thesis
    unfolding root_data_def child_data_def using as_dict_leaf by blast
qed

theorem two_level_round_trip_witness:
  "list_all (\<lambda>k. k \<notin> set (object_attrs cpython)) (data_col_names yutiming)
   \<and> parse_lines cpython [] yutiming two_lines = Inr two_rows
   \<and> (\<exists>h'. as_dict 2 (heap two_rows) 0 = Some (h', DataOf 0)
          \<and> map_of (data (h' ! 0)) ''Child'' = Some (DataOf 1)
          \<and> map_of (data (h' ! 1)) ''max'' = Some (PyFloat ''0.3''))
   \<and> 1 < length (heap two_rows) \<and> children (heap two_rows ! 1) = []
   \<and> as_dict 1 (heap two_rows) 1 = Some (heap two_rows, DataOf 1)"
proof -
  have a: "\<forall>k \<in> set (data_col_names yutiming). k \<notin> set (object_attrs cpython)"
    by code_simp
  have b: "1 < length (heap two_rows)" "children (heap two_rows ! 1) = []"
    by (simp_all add: two_rows_def)
  note t = two_level_round_trip [OF a, of 0]
  from t obtain st h' where
    "parse_lines cpython [] yutiming two_lines = Inr st"
    "as_dict (Suc (Suc 0)) (heap st) 0 = Some (h', DataOf 0)"
    "map_of (data (h' ! 0)) ''Child'' = Some (DataOf 1)"
    "map_of (data (h' ! 1)) ''max'' = Some (PyFloat (float cpython ''0.3''))"
    by blast
  with parse_two_lines have c: "\<exists>h'. as_dict 2 (heap two_rows) 0 = Some (h', DataOf 0)
          \<and> map_of (data (h' ! 0)) ''Child'' = Some (DataOf 1)
          \<and> map_of (data (h' ! 1)) ''max'' = Some (PyFloat ''0.3'')"
    by (auto simp: cpython_def numeral_2_eq_2)
  from t b have "as_dict (Suc 0) (heap two_rows) 1 = Some (heap two_rows, DataOf 1)"
    by blast
  then have d: "as_dict 1 (heap two_rows) 1 = Some (heap two_rows, DataOf 1)" by simp
  from a have "list_all (\<lambda>k. k \<notin> set (object_attrs cpython)) (data_col_names yutiming)"
    by (simp add: list_all_iff)
  with parse_two_lines b c d show ?thesis by blast
qed

text \<open>
  C4 fails on the code. \<open>as_dict\<close> updates \<open>self.data\<close> itself: after
  \<open>Root.as_dict()\<close> the field mapping of \<open>Root\<close> has the additional key \<open>Child\<close>.
\<close>

theorem as_dict_changes_data:
  "as_dict 2 (heap two_rows) 0 =
     Some ((heap two_rows)[0 := (heap two_rows ! 0)
             \<lparr>data := data (heap two_rows ! 0) @ [(''Child'', DataOf 1)]\<rparr>],
           DataOf 0)
   \<and> data (heap two_rows ! 0) @ [(''Child'', DataOf 1)] \<noteq> data (heap two_rows ! 0)"
  by code_simp

end
